theory Spec2Isabelle
  imports Main "HOL-Library.AList"
begin

section \<open>Exceptions, log records and observable events\<close>

text \<open>
  The exceptions the lifecycle code distinguishes. \<open>HttpError status content\<close> is
  \<open>googleapiclient.errors.HttpError\<close> with \<open>resp.status\<close> and the raw bytes of the
  response body, \<open>content\<close>; \<open>OtherError\<close> stands for every other subclass of
  \<open>Exception\<close>, named by its text.
\<close>

datatype exn = HttpError int string | AssertionError | TimeoutError | OtherError string

text \<open>Level names of Python's \<open>logging\<close> records, in increasing order.\<close>

datatype level = DEBUG | INFO | WARNING | ERROR | CRITICAL

text \<open>
  Modelled from the spec: \<open>rest_client.MessageSeverity\<close> and \<open>rest_client.TransferState\<close>
  are not part of the source file; the spec gives the severities INFO, WARNING, ERROR and the
  run states RUNNING, SUCCEEDED, FAILED.
\<close>

datatype MessageSeverity = Severity_INFO | Severity_WARNING | Severity_ERROR

datatype TransferState = RUNNING | SUCCEEDED | FAILED

record msg =
  message_time :: nat
  severity :: MessageSeverity
  message_text :: string

datatype timer = timer_update_bq_dts | timer_timeout

text \<open>
  Everything the code does to the outside world is recorded, in order, as an event:
  timer operations, records given to the process logger (\<open>self.logger\<close>) and to the per-run
  logger (\<open>self.run_logger\<close>), the three calls to the tracking-service client, and the
  acknowledgement of the Pub/Sub message.
\<close>

datatype event =
    TimerStart timer
  | TimerStop timer
  | LoggerLog level string
  | RunLoggerLog level string
  | PatchState TransferState
  | LogMessages "msg list"
  | FinishRun
  | Ack
  | Nack

text \<open>
  The tracking-service client is external. Each of its calls either returns or raises; the
  outcome may depend on everything that happened before the call.
\<close>

record dts_client =
  transfer_run_patch_state :: "event list \<Rightarrow> TransferState \<Rightarrow> exn option"
  transfer_run_log_messages :: "event list \<Rightarrow> msg list \<Rightarrow> exn option"
  transfer_run_finish_run :: "event list \<Rightarrow> exn option"

text \<open>
  The state of one \<open>ManagedTransferRun\<close>: the optional client, the buffer
  \<open>_log_handler.msgs\<close>, whether each timer is running, the run's name, the timeout interval
  as the f-string prints it, the clock that stamps log records, and the events so far.
\<close>

record run_state =
  dts_client :: "dts_client option"
  msgs :: "msg list"
  update_running :: bool
  timeout_running :: bool
  name :: string
  timeout_interval :: string
  now :: nat
  trace :: "event list"

type_synonym 'a result = "(exn + 'a) \<times> run_state"

definition bind :: "'a result \<Rightarrow> ('a \<Rightarrow> run_state \<Rightarrow> 'b result) \<Rightarrow> 'b result" where
  "bind r f = (case r of (Inl e, s) \<Rightarrow> (Inl e, s) | (Inr x, s) \<Rightarrow> f x s)"

definition record_event :: "event \<Rightarrow> run_state \<Rightarrow> run_state" where
  "record_event ev s = s\<lparr>trace := trace s @ [ev]\<rparr>"

section \<open>TransferRunLogger\<close>

definition LEVEL_TO_SEVERITY_MAP :: "level \<Rightarrow> MessageSeverity option" where
  "LEVEL_TO_SEVERITY_MAP l =
     (case l of INFO \<Rightarrow> Some Severity_INFO
              | WARNING \<Rightarrow> Some Severity_WARNING
              | ERROR \<Rightarrow> Some Severity_ERROR
              | _ \<Rightarrow> None)"

definition emit :: "level \<Rightarrow> string \<Rightarrow> run_state \<Rightarrow> run_state" where
  "emit l text s =
     (case LEVEL_TO_SEVERITY_MAP l of
        None \<Rightarrow> s
      | Some sev \<Rightarrow>
          s\<lparr>msgs := msgs s @ [\<lparr>message_time = now s, severity = sev, message_text = text\<rparr>]\<rparr>)"

definition flush :: "run_state \<Rightarrow> run_state" where
  "flush s = s\<lparr>msgs := []\<rparr>"

text \<open>
  \<open>self.logger\<close> is the process logger: its records never reach the run's handler.
  \<open>self.run_logger\<close> is its child with level INFO and the \<open>TransferRunLogger\<close> handler
  (level INFO) attached: a DEBUG record is dropped, every other record is emitted into the
  buffer and propagates to the process log.
\<close>

definition logger_log :: "level \<Rightarrow> string \<Rightarrow> run_state \<Rightarrow> run_state" where
  "logger_log l text s = record_event (LoggerLog l text) s"

definition run_logger_log :: "level \<Rightarrow> string \<Rightarrow> run_state \<Rightarrow> run_state" where
  "run_logger_log l text s =
     (if l = DEBUG then s else record_event (RunLoggerLog l text) (emit l text s))"

section \<open>Timers\<close>

text \<open>
  Modelled from the spec: \<open>helpers.RepeatedTimer\<close> is not part of the source file. The spec's
  Timer contract: \<open>start()\<close> begins firing, \<open>stop()\<close> halts future firing and is idempotent,
  \<open>run_now()\<close> invokes the callback immediately without disturbing the schedule.
\<close>

definition timer_start :: "timer \<Rightarrow> run_state \<Rightarrow> run_state" where
  "timer_start t s =
     record_event (TimerStart t)
       (case t of timer_update_bq_dts \<Rightarrow> s\<lparr>update_running := True\<rparr>
                | timer_timeout \<Rightarrow> s\<lparr>timeout_running := True\<rparr>)"

definition timer_stop :: "timer \<Rightarrow> run_state \<Rightarrow> run_state" where
  "timer_stop t s =
     record_event (TimerStop t)
       (case t of timer_update_bq_dts \<Rightarrow> s\<lparr>update_running := False\<rparr>
                | timer_timeout \<Rightarrow> s\<lparr>timeout_running := False\<rparr>)"

definition run_now :: "(run_state \<Rightarrow> unit result) \<Rightarrow> run_state \<Rightarrow> unit result" where
  "run_now callback s = callback s"

section \<open>Calls to the tracking service\<close>

definition call_patch_state :: "dts_client \<Rightarrow> TransferState \<Rightarrow> run_state \<Rightarrow> unit result" where
  "call_patch_state c st s =
     (case transfer_run_patch_state c (trace s) st of
        Some e \<Rightarrow> (Inl e, record_event (PatchState st) s)
      | None \<Rightarrow> (Inr (), record_event (PatchState st) s))"

definition call_log_messages :: "dts_client \<Rightarrow> msg list \<Rightarrow> run_state \<Rightarrow> unit result" where
  "call_log_messages c ms s =
     (case transfer_run_log_messages c (trace s) ms of
        Some e \<Rightarrow> (Inl e, record_event (LogMessages ms) s)
      | None \<Rightarrow> (Inr (), record_event (LogMessages ms) s))"

definition call_finish_run :: "dts_client \<Rightarrow> run_state \<Rightarrow> unit result" where
  "call_finish_run c s =
     (case transfer_run_finish_run c (trace s) of
        Some e \<Rightarrow> (Inl e, record_event FinishRun s)
      | None \<Rightarrow> (Inr (), record_event FinishRun s))"

section \<open>ManagedTransferRun\<close>

text \<open>
  The heartbeat text is not an f-string in the source, so the braces are sent literally.
\<close>

definition processing_text :: string where
  "processing_text =
     ''Processing... next update within {self._timer_update_bq_dts.interval} second(s)''"

definition update_bq_dts :: "run_state \<Rightarrow> unit result" where
  "update_bq_dts s0 =
     (let s1 = (if msgs s0 = [] then run_logger_log INFO processing_text s0 else s0) in
      case dts_client s1 of
        None \<Rightarrow> (Inr (), flush s1)
      | Some c \<Rightarrow>
          if msgs s1 \<noteq> []
          then bind (call_log_messages c (msgs s1) s1) (\<lambda>_ s2. (Inr (), flush s2))
          else (Inr (), flush s1))"

definition timeout_cb :: "run_state \<Rightarrow> unit result" where
  "timeout_cb s =
     (Inl TimeoutError,
      run_logger_log ERROR
        (''Transfer Run timed out after '' @ timeout_interval s @ '' second(s)!'') s)"

text \<open>
  \<open>traceback.format_exception\<close> joined into one string; only the exception's own line is
  kept, the stack lines depend on the interpreter.
\<close>

fun format_exception :: "exn \<Rightarrow> string" where
  "format_exception (HttpError status content) = ''googleapiclient.errors.HttpError: '' @ content"
| "format_exception AssertionError = ''AssertionError''"
| "format_exception TimeoutError = ''TimeoutError''"
| "format_exception (OtherError text) = text"

fun is_HttpError :: "exn option \<Rightarrow> bool" where
  "is_HttpError (Some (HttpError status content)) = True"
| "is_HttpError _ = False"

fun is_AssertionError :: "exn option \<Rightarrow> bool" where
  "is_AssertionError (Some AssertionError) = True"
| "is_AssertionError _ = False"

definition tag :: "run_state \<Rightarrow> string" where
  "tag s = ''['' @ name s @ '']''"

text \<open>
  \<open>__exit__(exc_type, exc, exc_tb)\<close>. The three arguments are all \<open>None\<close> or all set, so
  they are one optional exception. The result is the flag the context-manager protocol reads:
  \<open>True\<close> suppresses the exception.
\<close>

definition exit_scope :: "exn option \<Rightarrow> run_state \<Rightarrow> bool result" where
  "exit_scope exc s0 =
     (let s1 = timer_stop timer_timeout s0;
          s2 = timer_stop timer_update_bq_dts s1
      in if is_HttpError exc then (Inr False, s2)
         else
           let is_exception = (exc \<noteq> None);
               s3 = (case exc of
                       None \<Rightarrow> s2
                     | Some e \<Rightarrow> run_logger_log ERROR (format_exception e) s2)
           in bind
                (case dts_client s3 of
                   None \<Rightarrow> (Inr (), s3)
                 | Some c \<Rightarrow>
                     bind (run_now update_bq_dts s3) (\<lambda>_ s4.
                     bind
                       (if is_exception
                        then bind (call_patch_state c FAILED s4) (\<lambda>_ s5.
                               (Inr (),
                                logger_log INFO (tag s5 @ '' BQ DTS ; Finishing Run - FAILED'') s5))
                        else (Inr (),
                              logger_log INFO (tag s4 @ '' BQ DTS ; Finishing Run - SUCCESS'') s4))
                       (\<lambda>_ s6. call_finish_run c s6)))
                (\<lambda>_ s7. (Inr (is_AssertionError exc),
                          logger_log INFO (tag s7 @ '' [FINISHED]'') s7)))"

text \<open>
  \<open>__enter__\<close>. A failure of the first state report is handed to \<open>__exit__\<close>; the bare
  \<open>raise\<close> re-raises that failure when \<open>__exit__\<close> returns a false flag, and an exception
  raised by \<open>__exit__\<close> itself leaves the handler in its place.
\<close>

definition enter_scope :: "run_state \<Rightarrow> unit result" where
  "enter_scope s0 =
     (let s1 = logger_log INFO (tag s0 @ '' [STARTING]'') s0;
          s2 = timer_start timer_update_bq_dts s1;
          s3 = timer_start timer_timeout s2
      in case dts_client s3 of
           None \<Rightarrow> (Inr (), s3)
         | Some c \<Rightarrow>
             (let s4 = logger_log INFO (tag s3 @ '' BQ DTS ; Starting Run'') s3
              in (case call_patch_state c RUNNING s4 of
                    (Inr u, s5) \<Rightarrow> (Inr (), s5)
                  | (Inl e, s5) \<Rightarrow>
                      bind (exit_scope (Some e) s5) (\<lambda>suppress s6.
                        if suppress then (Inr (), s6) else (Inl e, s6)))))"

text \<open>
  The \<open>with\<close> statement around the run body: \<open>__exit__\<close> runs when the body returns or
  raises, not when \<open>__enter__\<close> raises.
\<close>

definition with_scope :: "(run_state \<Rightarrow> unit result) \<Rightarrow> run_state \<Rightarrow> unit result" where
  "with_scope body s0 =
     bind (enter_scope s0) (\<lambda>_ s1.
       case body s1 of
         (Inr u, s2) \<Rightarrow> bind (exit_scope None s2) (\<lambda>_ s3. (Inr (), s3))
       | (Inl e, s2) \<Rightarrow>
           bind (exit_scope (Some e) s2) (\<lambda>suppress s3.
             if suppress then (Inr (), s3) else (Inl e, s3)))"

text \<open>
  \<open>__init__\<close>: an empty buffer and two timers that are constructed but not started. The
  arguments are the run's name, the optional client, the timeout as printed, and the clock.
\<close>

definition init_run :: "string \<Rightarrow> dts_client option \<Rightarrow> string \<Rightarrow> nat \<Rightarrow> run_state" where
  "init_run nm c tmo t0 =
     \<lparr>dts_client = c, msgs = [], update_running = False, timeout_running = False,
      name = nm, timeout_interval = tmo, now = t0, trace = []\<rparr>"

section \<open>BaseConnector.pubsub_callback\<close>

text \<open>Decimal rendering of the status code inside the f-string.\<close>

function show_nat :: "nat \<Rightarrow> string" where
  "show_nat n =
     (if n < 10 then [''0123456789'' ! n]
      else show_nat (n div 10) @ [''0123456789'' ! (n mod 10)])"
  by pat_completeness auto
termination
  by (relation "measure id") auto

declare show_nat.simps [simp del]

definition show_int :: "int \<Rightarrow> string" where
  "show_int i = (if i < 0 then ''-'' @ show_nat (nat (- i)) else show_nat (nat i))"

text \<open>
  \<open>bytes.decode("utf-8")\<close> with the default strict error handling. A string of the model
  is a list of bytes, so a text is its own UTF-8 encoding and decoding returns the bytes when
  they are well-formed UTF-8: no stray continuation byte, no truncated or overlong sequence, no
  surrogate, nothing above U+10FFFF. Otherwise Python raises \<open>UnicodeDecodeError\<close>.
\<close>

definition is_cont :: "nat \<Rightarrow> bool" where
  "is_cont b \<longleftrightarrow> 128 \<le> b \<and> b \<le> 191"

fun utf8_valid :: "nat list \<Rightarrow> bool" where
  "utf8_valid [] = True"
| "utf8_valid (b # bs) =
     (if b < 128 then utf8_valid bs
      else if 194 \<le> b \<and> b \<le> 223 then
        (case bs of c1 # r \<Rightarrow> is_cont c1 \<and> utf8_valid r | _ \<Rightarrow> False)
      else if 224 \<le> b \<and> b \<le> 239 then
        (case bs of
           c1 # c2 # r \<Rightarrow>
             is_cont c1 \<and> is_cont c2
             \<and> (if b = 224 then 160 \<le> c1 else True) \<and> (if b = 237 then c1 \<le> 159 else True)
             \<and> utf8_valid r
         | _ \<Rightarrow> False)
      else if 240 \<le> b \<and> b \<le> 244 then
        (case bs of
           c1 # c2 # c3 # r \<Rightarrow>
             is_cont c1 \<and> is_cont c2 \<and> is_cont c3
             \<and> (if b = 240 then 144 \<le> c1 else True) \<and> (if b = 244 then c1 \<le> 143 else True)
             \<and> utf8_valid r
         | _ \<Rightarrow> False)
      else False)"

definition decode_utf8 :: "string \<Rightarrow> string option" where
  "decode_utf8 bs = (if utf8_valid (map of_char bs) then Some bs else None)"

text \<open>
  The callback from its \<open>try\<close> statement on; \<open>body\<close> is \<open>process_transfer_run\<close>. An
  exception that neither handler catches leaves the callback before step 6, so the message is
  neither acknowledged nor returned. That includes the \<open>UnicodeDecodeError\<close> of the second
  log line of step 4a, which is raised inside the handler.
\<close>

definition pubsub_callback :: "(run_state \<Rightarrow> unit result) \<Rightarrow> run_state \<Rightarrow> unit result" where
  "pubsub_callback body s0 =
     (case with_scope body s0 of
        (Inr u, s1) \<Rightarrow> (Inr (), record_event Ack s1)
      | (Inl (HttpError status content), s1) \<Rightarrow>
          if status = 400 \<or> status = 404
          then (let s2 = logger_log ERROR
                           (''Unrecoverable BigQuery Data Transfer Service API error - ''
                              @ show_int status) s1
                in case decode_utf8 content of
                     None \<Rightarrow> (Inl (OtherError ''UnicodeDecodeError''), s2)
                   | Some text \<Rightarrow> (Inr (), record_event Ack (logger_log ERROR text s2)))
          else (Inr (), record_event Nack s1)
      | (Inl AssertionError, s1) \<Rightarrow> (Inr (), record_event Ack s1)
      | (Inl e, s1) \<Rightarrow> (Inl e, s1))"

section \<open>Reading traces\<close>

text \<open>What a stretch of events tells the tracking service.\<close>

fun is_dts_call :: "event \<Rightarrow> bool" where
  "is_dts_call (PatchState st) = True"
| "is_dts_call (LogMessages ms) = True"
| "is_dts_call FinishRun = True"
| "is_dts_call _ = False"

fun is_terminal_report :: "event \<Rightarrow> bool" where
  "is_terminal_report (PatchState SUCCEEDED) = True"
| "is_terminal_report (PatchState FAILED) = True"
| "is_terminal_report _ = False"

text \<open>The events a step added to the trace.\<close>

definition added :: "run_state \<Rightarrow> run_state \<Rightarrow> event list" where
  "added s s' = drop (length (trace s)) (trace s')"

text \<open>The entry a silent heartbeat puts into the buffer.\<close>

definition processing_msg :: "run_state \<Rightarrow> msg" where
  "processing_msg s =
     \<lparr>message_time = now s, severity = Severity_INFO, message_text = processing_text\<rparr>"

section \<open>Example runs\<close>

text \<open>
  A client whose calls all succeed, one whose log submission is refused with status 503, and
  one whose first state report is lost to a connection error.
\<close>

definition ok_client :: dts_client where
  "ok_client =
     \<lparr>transfer_run_patch_state = (\<lambda>h st. None),
      transfer_run_log_messages = (\<lambda>h ms. None),
      transfer_run_finish_run = (\<lambda>h. None)\<rparr>"

definition busy_client :: dts_client where
  "busy_client =
     \<lparr>transfer_run_patch_state = (\<lambda>h st. None),
      transfer_run_log_messages = (\<lambda>h ms. Some (HttpError 503 ''unavailable'')),
      transfer_run_finish_run = (\<lambda>h. None)\<rparr>"

definition unreachable_client :: dts_client where
  "unreachable_client =
     \<lparr>transfer_run_patch_state =
        (\<lambda>h st. if st = RUNNING then Some (OtherError ''ConnectionError'') else None),
      transfer_run_log_messages = (\<lambda>h ms. None),
      transfer_run_finish_run = (\<lambda>h. None)\<rparr>"

text \<open>
  A service that cannot be reached at all: the first state report is lost to a connection
  error and the log submission is refused with status 503. And a client whose first state
  report fails an assertion of its own.
\<close>

definition down_client :: dts_client where
  "down_client =
     \<lparr>transfer_run_patch_state =
        (\<lambda>h st. if st = RUNNING then Some (OtherError ''ConnectionError'') else None),
      transfer_run_log_messages = (\<lambda>h ms. Some (HttpError 503 ''unavailable'')),
      transfer_run_finish_run = (\<lambda>h. None)\<rparr>"

definition asserting_client :: dts_client where
  "asserting_client =
     \<lparr>transfer_run_patch_state =
        (\<lambda>h st. if st = RUNNING then Some AssertionError else None),
      transfer_run_log_messages = (\<lambda>h ms. None),
      transfer_run_finish_run = (\<lambda>h. None)\<rparr>"

definition example_run :: "dts_client option \<Rightarrow> run_state" where
  "example_run c = init_run ''runs/r1'' c ''3600'' 0"

text \<open>The same run after the run body has logged one line to the run's logger.\<close>

definition logged_run :: "dts_client option \<Rightarrow> run_state" where
  "logged_run c = run_logger_log INFO ''loading date_greg'' (example_run c)"

text \<open>Run bodies that raise at once, and one that returns at once.\<close>

definition raising_body :: "exn \<Rightarrow> run_state \<Rightarrow> unit result" where
  "raising_body e s = (Inl e, s)"

definition silent_body :: "run_state \<Rightarrow> unit result" where
  "silent_body s = (Inr (), s)"

section \<open>TableContext.to_ImportedDataInfo\<close>

text \<open>
  The configuration is a tree of Python dicts and lists that \<open>to_ImportedDataInfo\<close> copies
  and then modifies in place, so objects live in a store. A value is atomic or the address of
  an object; the store is the list of all objects made so far, an address is an index, and a
  new object goes at the end. Dict keys are strings, kept in insertion order.
\<close>

datatype pyval = PNone | PBool bool | PInt int | PStr string | PRef nat

datatype pyobj = PDict "(string \<times> pyval) list" | PList "pyval list"

type_synonym heap = "pyobj list"

type_synonym memo = "nat \<rightharpoonup> nat"

text \<open>
  \<open>DanglingReference\<close> is not a Python exception: a Python reference always has a target.
  The model returns it for an address outside the store.
\<close>

datatype pyerr =
  AttributeError | KeyError | IndexError | TypeError | RecursionError | DanglingReference

definition heap_get :: "heap \<Rightarrow> nat \<Rightarrow> pyobj option" where
  "heap_get h a = (if a < length h then Some (h ! a) else None)"

text \<open>
  \<open>copy.deepcopy(x, memo)\<close>. An atomic value is returned as it is. For a list or dict, the
  memo is consulted first; otherwise an empty object is created and entered in the memo, and
  the elements are copied in order into it. The first argument bounds the depth of the
  recursion, as the interpreter's recursion limit does. The new object receives its elements
  in one step once they are all copied; no copy reads a new object before that.
\<close>

fun deepcopy :: "nat \<Rightarrow> pyval \<Rightarrow> heap \<times> memo \<Rightarrow> pyerr + (pyval \<times> heap \<times> memo)"
  and deepcopy_vals ::
    "nat \<Rightarrow> pyval list \<Rightarrow> heap \<times> memo \<Rightarrow> pyerr + (pyval list \<times> heap \<times> memo)"
where
  "deepcopy 0 (PRef a) (h, m) =
     (case m a of Some b \<Rightarrow> Inr (PRef b, h, m) | None \<Rightarrow> Inl RecursionError)"
| "deepcopy (Suc k) (PRef a) (h, m) =
     (case m a of
        Some b \<Rightarrow> Inr (PRef b, h, m)
      | None \<Rightarrow>
          (case heap_get h a of
             None \<Rightarrow> Inl DanglingReference
           | Some (PList vs) \<Rightarrow>
               (case deepcopy_vals k vs (h @ [PList []], m(a \<mapsto> length h)) of
                  Inl e \<Rightarrow> Inl e
                | Inr (vs', h', m') \<Rightarrow>
                    Inr (PRef (length h), h'[length h := PList vs'], m'))
           | Some (PDict kvs) \<Rightarrow>
               (case deepcopy_vals k (map snd kvs) (h @ [PDict []], m(a \<mapsto> length h)) of
                  Inl e \<Rightarrow> Inl e
                | Inr (vs', h', m') \<Rightarrow>
                    Inr (PRef (length h),
                         h'[length h := PDict (zip (map fst kvs) vs')], m'))))"
| "deepcopy n v (h, m) = Inr (v, h, m)"
| "deepcopy_vals n [] (h, m) = Inr ([], h, m)"
| "deepcopy_vals n (v # vs) (h, m) =
     (case deepcopy n v (h, m) of
        Inl e \<Rightarrow> Inl e
      | Inr (v', h', m') \<Rightarrow>
          (case deepcopy_vals n vs (h', m') of
             Inl e \<Rightarrow> Inl e
           | Inr (vs', h'', m'') \<Rightarrow> Inr (v' # vs', h'', m'')))"

record TableContext =
  imported_data_info :: pyval
  table_name :: pyval
  uris :: pyval

text \<open>
  \<open>to_ImportedDataInfo\<close>, statement by statement: the deep copy, \<open>pop\<close> with a default,
  the assignment of \<open>destination_table_id\<close>, and the assignment through
  \<open>['table_defs'][0]['source_uris']\<close>, each with the exception Python raises when the
  object at hand has the wrong shape. The result is the returned value and the store.
\<close>

definition set_source_uris :: "pyval \<Rightarrow> pyval \<Rightarrow> pyval \<Rightarrow> heap \<Rightarrow> (pyerr + pyval) \<times> heap" where
  "set_source_uris table_idi first_def u h =
     (case first_def of
        PRef t \<Rightarrow>
          (case heap_get h t of
             None \<Rightarrow> (Inl DanglingReference, h)
           | Some (PDict tkvs) \<Rightarrow>
               (Inr table_idi, h[t := PDict (AList.update ''source_uris'' u tkvs)])
           | Some (PList tvs) \<Rightarrow> (Inl TypeError, h))
      | _ \<Rightarrow> (Inl TypeError, h))"

definition first_table_def :: "pyval \<Rightarrow> heap \<Rightarrow> pyerr + pyval" where
  "first_table_def defs h =
     (case defs of
        PRef l \<Rightarrow>
          (case heap_get h l of
             None \<Rightarrow> Inl DanglingReference
           | Some (PList []) \<Rightarrow> Inl IndexError
           | Some (PList (x # xs)) \<Rightarrow> Inr x
           | Some (PDict lkvs) \<Rightarrow> Inl KeyError)
      | PStr [] \<Rightarrow> Inl IndexError
      | PStr (c # cs) \<Rightarrow> Inr (PStr [c])
      | _ \<Rightarrow> Inl TypeError)"

definition to_ImportedDataInfo ::
    "nat \<Rightarrow> TableContext \<Rightarrow> heap \<Rightarrow> (pyerr + pyval) \<times> heap" where
  "to_ImportedDataInfo depth self h =
     (case deepcopy depth (imported_data_info self) (h, Map.empty) of
        Inl e \<Rightarrow> (Inl e, h)
      | Inr (table_idi, h1, m) \<Rightarrow>
          (case table_idi of
             PRef d \<Rightarrow>
               (case heap_get h1 d of
                  None \<Rightarrow> (Inl DanglingReference, h1)
                | Some (PList vs) \<Rightarrow> (Inl TypeError, h1)
                | Some (PDict kvs) \<Rightarrow>
                    (let kvs1 = AList.delete ''destination_table_id_template'' kvs;
                         kvs2 = AList.update ''destination_table_id'' (table_name self) kvs1;
                         h2 = h1[d := PDict kvs2]
                     in (case map_of kvs2 ''table_defs'' of
                           None \<Rightarrow> (Inl KeyError, h2)
                         | Some defs \<Rightarrow>
                             (case first_table_def defs h2 of
                                Inl e \<Rightarrow> (Inl e, h2)
                              | Inr first_def \<Rightarrow>
                                  set_source_uris table_idi first_def (uris self) h2))))
           | _ \<Rightarrow> (Inl AttributeError, h1)))"

text \<open>Reading the store: the entry of a dict under a key, and the first element of a list.\<close>

definition dict_get :: "heap \<Rightarrow> pyval \<Rightarrow> string \<Rightarrow> pyval option" where
  "dict_get h v k =
     (case v of
        PRef a \<Rightarrow> (case heap_get h a of Some (PDict kvs) \<Rightarrow> map_of kvs k | _ \<Rightarrow> None)
      | _ \<Rightarrow> None)"

definition is_dict :: "heap \<Rightarrow> pyval \<Rightarrow> bool" where
  "is_dict h v =
     (case v of
        PRef a \<Rightarrow> (case heap_get h a of Some (PDict kvs) \<Rightarrow> True | _ \<Rightarrow> False)
      | _ \<Rightarrow> False)"

definition list_first :: "heap \<Rightarrow> pyval \<Rightarrow> pyval option" where
  "list_first h v =
     (case v of
        PRef a \<Rightarrow> (case heap_get h a of Some (PList (x # xs)) \<Rightarrow> Some x | _ \<Rightarrow> None)
      | _ \<Rightarrow> None)"

text \<open>
  A store is closed when every address stored in an object lies inside the store, as in any
  Python heap.
\<close>

fun ref_addrs :: "pyval \<Rightarrow> nat list" where
  "ref_addrs (PRef a) = [a]"
| "ref_addrs v = []"

definition obj_values :: "pyobj \<Rightarrow> pyval list" where
  "obj_values ob = (case ob of PDict kvs \<Rightarrow> map snd kvs | PList vs \<Rightarrow> vs)"

definition closed_heap :: "heap \<Rightarrow> bool" where
  "closed_heap h =
     list_all (\<lambda>ob. list_all (\<lambda>r. r < length h) (concat (map ref_addrs (obj_values ob)))) h"

text \<open>
  What the memo says a finished copy looks like: an atomic value is copied to itself, an
  address to the address the memo maps it to, and an object to an object of the same kind,
  with the same keys, whose elements are the copies of the elements. While a copy runs, the
  objects that are still being filled (\<open>ip\<close>) are exempt.
\<close>

fun copied :: "memo \<Rightarrow> pyval \<Rightarrow> pyval \<Rightarrow> bool" where
  "copied m (PRef a) v' = (case m a of Some b \<Rightarrow> v' = PRef b | None \<Rightarrow> False)"
| "copied m v v' = (v' = v)"

fun copied_obj :: "memo \<Rightarrow> pyobj \<Rightarrow> pyobj \<Rightarrow> bool" where
  "copied_obj m (PList vs) (PList vs') = list_all2 (copied m) vs vs'"
| "copied_obj m (PDict kvs) (PDict kvs') =
     (map fst kvs' = map fst kvs \<and> list_all2 (copied m) (map snd kvs) (map snd kvs'))"
| "copied_obj m ob ob' = False"

definition copy_inv :: "heap \<Rightarrow> nat set \<Rightarrow> heap \<Rightarrow> memo \<Rightarrow> bool" where
  "copy_inv h0 ip h m \<longleftrightarrow>
     take (length h0) h = h0
   \<and> (\<forall>a b. m a = Some b \<longrightarrow>
         a < length h0 \<and> length h0 \<le> b \<and> b < length h
       \<and> (a \<notin> ip \<longrightarrow> copied_obj m (h0 ! a) (h ! b)))"

definition copy_post :: "heap \<Rightarrow> nat set \<Rightarrow> heap \<Rightarrow> memo \<Rightarrow> heap \<Rightarrow> memo \<Rightarrow> bool" where
  "copy_post h0 ip h m h' m' \<longleftrightarrow>
     copy_inv h0 ip h' m' \<and> m \<subseteq>\<^sub>m m' \<and> length h \<le> length h'
   \<and> (\<forall>x b. m' x = Some b \<longrightarrow> m x = Some b \<or> length h \<le> b)"

text \<open>
  The two edits \<open>to_ImportedDataInfo\<close> makes after copying: to the copy of the
  configuration (at \<open>d\<close>) and to the first table definition of the copy (at \<open>t\<close>).
  \<open>edited\<close> is what they make of the object at address \<open>b\<close>.
\<close>

definition edit_root :: "pyval \<Rightarrow> pyobj \<Rightarrow> pyobj" where
  "edit_root tn ob =
     (case ob of
        PDict kvs \<Rightarrow>
          PDict (AList.update ''destination_table_id'' tn
                   (AList.delete ''destination_table_id_template'' kvs))
      | PList vs \<Rightarrow> PList vs)"

definition edit_def :: "pyval \<Rightarrow> pyobj \<Rightarrow> pyobj" where
  "edit_def u ob =
     (case ob of
        PDict kvs \<Rightarrow> PDict (AList.update ''source_uris'' u kvs)
      | PList vs \<Rightarrow> PList vs)"

definition edited :: "TableContext \<Rightarrow> nat \<Rightarrow> nat \<Rightarrow> nat \<Rightarrow> pyobj \<Rightarrow> pyobj" where
  "edited self d t b ob =
     (let ob1 = (if b = d then edit_root (table_name self) ob else ob)
      in if b = t then edit_def (uris self) ob1 else ob1)"

text \<open>
  The example of the module's docstring after loading: the configuration of \<open>date_greg\<close>
  with one table definition, and the list of staged files.
\<close>

definition example_heap :: heap where
  "example_heap =
     [PDict [(''destination_table_id_template'', PStr ''date_greg${run_yyyymmdd}''),
             (''destination_table_description'', PStr ''1582-10-15 - 2199-12-31 inclusive''),
             (''table_defs'', PRef 1)],
      PList [PRef 2],
      PDict [(''format'', PStr ''JSON''), (''max_bad_records'', PInt 0),
             (''encoding'', PStr ''UTF8'')],
      PList [PStr ''gs://staging/date_greg.json'']]"

definition example_ctx :: TableContext where
  "example_ctx =
     \<lparr>imported_data_info = PRef 0, table_name = PStr ''date_greg$20180101'',
      uris = PRef 3\<rparr>"

text \<open>
  The addresses an object refers to, and the invariant of a copy in progress above the mark
  \<open>n0\<close>: every address the memo hands out, and every address stored in an object at or
  above the mark, is itself at or above the mark and inside the store.
\<close>

definition refs_of :: "pyobj \<Rightarrow> nat set" where
  "refs_of ob =
     (case ob of
        PDict kvs \<Rightarrow> {a. PRef a \<in> snd ` set kvs}
      | PList vs \<Rightarrow> {a. PRef a \<in> set vs})"

definition fresh_inv :: "nat \<Rightarrow> heap \<Rightarrow> memo \<Rightarrow> bool" where
  "fresh_inv n0 h m \<longleftrightarrow>
     n0 \<le> length h
   \<and> (\<forall>a b. m a = Some b \<longrightarrow> n0 \<le> b \<and> b < length h)
   \<and> (\<forall>a r. n0 \<le> a \<and> a < length h \<and> r \<in> refs_of (h ! a) \<longrightarrow> n0 \<le> r \<and> r < length h)"

section \<open>Proof tools\<close>

lemmas prims = record_event_def logger_log_def run_logger_log_def emit_def flush_def
  timer_start_def timer_stop_def run_now_def call_patch_state_def call_log_messages_def
  call_finish_run_def bind_def LEVEL_TO_SEVERITY_MAP_def tag_def

lemmas examples = example_run_def init_run_def ok_client_def busy_client_def
  unreachable_client_def down_client_def asserting_client_def logged_run_def
  raising_body_def silent_body_def processing_text_def processing_msg_def

lemma exit_scope_HttpError:
  "exit_scope (Some (HttpError status content)) s =
     (Inr False, timer_stop timer_update_bq_dts (timer_stop timer_timeout s))"
  by (simp add: exit_scope_def)

lemma stops_added:
  "added s (timer_stop timer_update_bq_dts (timer_stop timer_timeout s)) =
     [TimerStop timer_timeout, TimerStop timer_update_bq_dts]"
  by (simp add: prims added_def)

lemma exit_scope_None_client:
  assumes "dts_client s = Some c" and "fst (exit_scope None s) = Inr b"
  shows "added s (snd (exit_scope None s)) =
           [TimerStop timer_timeout, TimerStop timer_update_bq_dts]
           @ (if msgs s = [] then [RunLoggerLog INFO processing_text] else [])
           @ [LogMessages (if msgs s = [] then [processing_msg s] else msgs s),
              LoggerLog INFO (tag s @ '' BQ DTS ; Finishing Run - SUCCESS''),
              FinishRun, LoggerLog INFO (tag s @ '' [FINISHED]'')]"
  using assms
  by (cases "msgs s = []")
     (simp_all add: exit_scope_def update_bq_dts_def prims added_def Let_def processing_msg_def
        split: option.splits)

lemma exit_scope_Some_client:
  assumes "dts_client s = Some c" and "\<not> is_HttpError (Some e)"
    and "fst (exit_scope (Some e) s) = Inr b"
  shows "added s (snd (exit_scope (Some e) s)) =
           [TimerStop timer_timeout, TimerStop timer_update_bq_dts,
            RunLoggerLog ERROR (format_exception e),
            LogMessages (msgs s @ [\<lparr>message_time = now s, severity = Severity_ERROR,
                                message_text = format_exception e\<rparr>]),
            PatchState FAILED,
            LoggerLog INFO (tag s @ '' BQ DTS ; Finishing Run - FAILED''),
            FinishRun, LoggerLog INFO (tag s @ '' [FINISHED]'')]"
  using assms
  by (simp add: exit_scope_def update_bq_dts_def prims added_def Let_def
        split: option.splits)

lemma exit_scope_no_client:
  assumes "dts_client s = None" and "\<not> is_HttpError exc"
  shows "fst (exit_scope exc s) = Inr (is_AssertionError exc)"
    and "added s (snd (exit_scope exc s)) =
           [TimerStop timer_timeout, TimerStop timer_update_bq_dts]
           @ (case exc of None \<Rightarrow> []
                        | Some e \<Rightarrow> [RunLoggerLog ERROR (format_exception e)])
           @ [LoggerLog INFO (tag s @ '' [FINISHED]'')]"
  using assms
  by (cases exc; simp add: exit_scope_def prims added_def Let_def)+

lemma HttpError_not_AssertionError:
  "is_HttpError exc \<Longrightarrow> \<not> is_AssertionError exc"
  by (cases exc rule: is_HttpError.cases) simp_all

lemma exit_scope_flag:
  assumes "fst (exit_scope exc s) = Inr b"
  shows "b = is_AssertionError exc"
  using assms
  by (cases "is_HttpError exc"; cases exc; cases "dts_client s")
     (auto simp: exit_scope_def update_bq_dts_def prims Let_def HttpError_not_AssertionError
        split: option.splits if_splits)

lemma exit_scope_first_call_None:
  assumes "dts_client s = Some c"
  shows "\<exists>post. added s (snd (exit_scope None s)) =
           ([TimerStop timer_timeout, TimerStop timer_update_bq_dts]
            @ (if msgs s = [] then [RunLoggerLog INFO processing_text] else []))
           @ LogMessages (if msgs s = [] then [processing_msg s] else msgs s) # post"
  using assms
  by (cases "msgs s = []")
     (simp_all add: exit_scope_def update_bq_dts_def prims added_def Let_def processing_msg_def
        split: option.splits)

lemma exit_scope_first_call_Some:
  assumes "dts_client s = Some c" and "\<not> is_HttpError (Some e)"
  shows "\<exists>post. added s (snd (exit_scope (Some e) s)) =
           [TimerStop timer_timeout, TimerStop timer_update_bq_dts,
            RunLoggerLog ERROR (format_exception e)]
           @ LogMessages (msgs s @ [\<lparr>message_time = now s, severity = Severity_ERROR,
                                message_text = format_exception e\<rparr>]) # post"
  using assms
  by (simp add: exit_scope_def update_bq_dts_def prims added_def Let_def
        split: option.splits)

lemma exit_scope_timers_stopped:
  "\<not> timeout_running (snd (exit_scope exc s)) \<and> \<not> update_running (snd (exit_scope exc s))"
  by (auto simp: exit_scope_def update_bq_dts_def prims Let_def split: option.splits)

section \<open>Scope exit: timers first\<close>

text \<open>
  C1 (as amended). Every scope exit, whatever the triggering error, first stops the timeout
  timer and then the heartbeat timer; every call to the tracking service in scope exit comes
  after these two events, and both timers are stopped when scope exit ends. Scope exit sends at
  most one terminal-state report and at most one finish call. It sends no terminal-state report
  when the triggering error is an HttpError, when there is no error, or when no client is
  configured; it sends exactly one, FAILED, when a client is configured, the error is not an
  HttpError and scope exit returns.
\<close>

theorem exit_scope_stops_timers_first:
  "\<exists>rest. added s (snd (exit_scope exc s)) =
            TimerStop timer_timeout # TimerStop timer_update_bq_dts # rest
      \<and> length (filter is_terminal_report rest) \<le> 1
      \<and> length (filter (\<lambda>ev. ev = FinishRun) rest) \<le> 1
      \<and> (is_HttpError exc \<or> exc = None \<or> dts_client s = None
           \<longrightarrow> filter is_terminal_report rest = [])
      \<and> (\<not> is_HttpError exc \<and> exc \<noteq> None \<and> dts_client s \<noteq> None
            \<and> (\<exists>b. fst (exit_scope exc s) = Inr b)
           \<longrightarrow> filter is_terminal_report rest = [PatchState FAILED])
      \<and> \<not> timeout_running (snd (exit_scope exc s))
      \<and> \<not> update_running (snd (exit_scope exc s))"
  by (auto simp: exit_scope_def update_bq_dts_def prims added_def Let_def split: option.splits)

theorem exit_scope_stops_timers_first_witness:
  "added (example_run (Some ok_client))
     (snd (exit_scope (Some AssertionError) (example_run (Some ok_client)))) =
     [TimerStop timer_timeout, TimerStop timer_update_bq_dts,
      RunLoggerLog ERROR ''AssertionError'',
      LogMessages [\<lparr>message_time = 0, severity = Severity_ERROR,
                    message_text = ''AssertionError''\<rparr>],
      PatchState FAILED,
      LoggerLog INFO ''[runs/r1] BQ DTS ; Finishing Run - FAILED'',
      FinishRun,
      LoggerLog INFO ''[runs/r1] [FINISHED]'']
   \<and> \<not> is_HttpError (Some AssertionError)
   \<and> dts_client (example_run (Some ok_client)) \<noteq> None
   \<and> fst (exit_scope (Some AssertionError) (example_run (Some ok_client))) = Inr True
   \<and> added (example_run None) (snd (exit_scope None (example_run None))) =
     [TimerStop timer_timeout, TimerStop timer_update_bq_dts,
      LoggerLog INFO ''[runs/r1] [FINISHED]'']
   \<and> dts_client (example_run None) = None"
  using exit_scope_stops_timers_first [of "example_run (Some ok_client)" "Some AssertionError"]
    exit_scope_stops_timers_first [of "example_run None" None]
  by (simp add: exit_scope_def update_bq_dts_def prims added_def examples)

theorem exit_scope_HttpError_counterexample:
  "trace (snd (exit_scope (Some (HttpError 500 ''backend error''))
                 (example_run (Some ok_client)))) =
     [TimerStop timer_timeout, TimerStop timer_update_bq_dts]
   \<and> length (filter is_terminal_report
        (trace (snd (exit_scope (Some (HttpError 500 ''backend error''))
                       (example_run (Some ok_client)))))) \<noteq> 1"
  by (simp add: exit_scope_def prims examples)

section \<open>Scope exit: flush, report, finish\<close>

text \<open>
  C2 (as amended). With a client configured and a triggering error that is not an HttpError
  of any status, the first call scope exit makes to the tracking service is the submission of
  the non-empty buffer. When scope exit returns, it has, in this order, stopped the timers,
  logged the error if there is one, submitted the buffer, patched the state to FAILED if and
  only if there is an error, and finished the run. When there is no error, no state is
  patched: the only calls are the submission and the finish call.
\<close>

theorem exit_scope_flush_report_finish:
  "dts_client s = Some c \<Longrightarrow> \<not> is_HttpError exc \<Longrightarrow>
     (\<exists>post.
         added s (snd (exit_scope exc s)) =
           ([TimerStop timer_timeout, TimerStop timer_update_bq_dts]
            @ (case exc of
                None \<Rightarrow> if msgs s = [] then [RunLoggerLog INFO processing_text] else []
              | Some e \<Rightarrow> [RunLoggerLog ERROR (format_exception e)]))
           @ LogMessages
                (case exc of
                   None \<Rightarrow> if msgs s = [] then [processing_msg s] else msgs s
                 | Some e \<Rightarrow>
                     msgs s @ [\<lparr>message_time = now s, severity = Severity_ERROR,
                                message_text = format_exception e\<rparr>]) # post)
   \<and> (case exc of
         None \<Rightarrow> if msgs s = [] then [processing_msg s] else msgs s
       | Some e \<Rightarrow>
           msgs s @ [\<lparr>message_time = now s, severity = Severity_ERROR,
                      message_text = format_exception e\<rparr>]) \<noteq> []
   \<and> (\<forall>b. fst (exit_scope exc s) = Inr b \<longrightarrow>
         added s (snd (exit_scope exc s)) =
           [TimerStop timer_timeout, TimerStop timer_update_bq_dts]
           @ (case exc of
                None \<Rightarrow> if msgs s = [] then [RunLoggerLog INFO processing_text] else []
              | Some e \<Rightarrow> [RunLoggerLog ERROR (format_exception e)])
           @ [LogMessages
                (case exc of
                   None \<Rightarrow> if msgs s = [] then [processing_msg s] else msgs s
                 | Some e \<Rightarrow>
                     msgs s @ [\<lparr>message_time = now s, severity = Severity_ERROR,
                                message_text = format_exception e\<rparr>])]
           @ (case exc of
                None \<Rightarrow> [LoggerLog INFO (tag s @ '' BQ DTS ; Finishing Run - SUCCESS'')]
              | Some e \<Rightarrow>
                  [PatchState FAILED,
                   LoggerLog INFO (tag s @ '' BQ DTS ; Finishing Run - FAILED'')])
           @ [FinishRun, LoggerLog INFO (tag s @ '' [FINISHED]'')])"
proof (cases exc)
  case None
  assume c: "dts_client s = Some c"
  show ?thesis
    using exit_scope_first_call_None [OF c] exit_scope_None_client [OF c]
    by (simp add: None)
next
  case (Some e)
  assume c: "dts_client s = Some c" and h: "\<not> is_HttpError exc"
  show ?thesis
    using exit_scope_first_call_Some [OF c, of e] exit_scope_Some_client [OF c, of e] h
    by (simp add: Some)
qed

theorem exit_scope_flush_report_finish_witness:
  "dts_client (example_run (Some ok_client)) = Some ok_client
   \<and> \<not> is_HttpError (Some TimeoutError)
   \<and> fst (exit_scope (Some TimeoutError) (example_run (Some ok_client))) = Inr False
   \<and> added (example_run (Some ok_client))
        (snd (exit_scope (Some TimeoutError) (example_run (Some ok_client)))) =
       [TimerStop timer_timeout, TimerStop timer_update_bq_dts,
        RunLoggerLog ERROR ''TimeoutError'',
        LogMessages [\<lparr>message_time = 0, severity = Severity_ERROR,
                      message_text = ''TimeoutError''\<rparr>],
        PatchState FAILED,
        LoggerLog INFO ''[runs/r1] BQ DTS ; Finishing Run - FAILED'',
        FinishRun,
        LoggerLog INFO ''[runs/r1] [FINISHED]'']"
  using exit_scope_flush_report_finish
          [of "example_run (Some ok_client)" ok_client "Some TimeoutError"]
  by (simp add: exit_scope_def update_bq_dts_def prims added_def examples)

theorem exit_scope_success_counterexample:
  "fst (exit_scope None (example_run (Some ok_client))) = Inr False
   \<and> trace (snd (exit_scope None (example_run (Some ok_client)))) =
       [TimerStop timer_timeout, TimerStop timer_update_bq_dts,
        RunLoggerLog INFO processing_text,
        LogMessages [\<lparr>message_time = 0, severity = Severity_INFO,
                      message_text = processing_text\<rparr>],
        LoggerLog INFO ''[runs/r1] BQ DTS ; Finishing Run - SUCCESS'',
        FinishRun,
        LoggerLog INFO ''[runs/r1] [FINISHED]'']
   \<and> PatchState SUCCEEDED
        \<notin> set (trace (snd (exit_scope None (example_run (Some ok_client)))))"
  by (simp add: exit_scope_def update_bq_dts_def prims example_run_def init_run_def
        ok_client_def)

section \<open>Remote-API errors\<close>

text \<open>
  What holds of an HttpError with status 400 or 404 for every run: scope exit only stops the
  two timers, makes no call to the tracking service and does not suppress the error; the
  error leaves the scope unchanged; the callback logs the status at ERROR level, and when the
  body of the response decodes as UTF-8 it logs the text and acknowledges the message.
\<close>

lemma unrecoverable_HttpError_short_circuit:
  "status = 400 \<or> status = 404 \<Longrightarrow>
     fst (exit_scope (Some (HttpError status content)) s) = Inr False
   \<and> added s (snd (exit_scope (Some (HttpError status content)) s)) =
       [TimerStop timer_timeout, TimerStop timer_update_bq_dts]
   \<and> filter is_dts_call (added s (snd (exit_scope (Some (HttpError status content)) s))) = []
   \<and> (\<forall>s1 s2. enter_scope s0 = (Inr (), s1)
          \<and> body s1 = (Inl (HttpError status content), s2) \<longrightarrow>
        with_scope body s0 =
          (Inl (HttpError status content),
           snd (exit_scope (Some (HttpError status content)) s2)))
   \<and> (\<forall>s3 text. with_scope body s0 = (Inl (HttpError status content), s3)
          \<and> decode_utf8 content = Some text \<longrightarrow>
        fst (pubsub_callback body s0) = Inr ()
      \<and> added s3 (snd (pubsub_callback body s0)) =
          [LoggerLog ERROR
             (''Unrecoverable BigQuery Data Transfer Service API error - '' @ show_int status),
           LoggerLog ERROR text, Ack])
   \<and> (\<forall>s3. with_scope body s0 = (Inl (HttpError status content), s3)
          \<and> decode_utf8 content = None \<longrightarrow>
        fst (pubsub_callback body s0) = Inl (OtherError ''UnicodeDecodeError'')
      \<and> added s3 (snd (pubsub_callback body s0)) =
          [LoggerLog ERROR
             (''Unrecoverable BigQuery Data Transfer Service API error - ''
                @ show_int status)])"
  by (auto simp: exit_scope_HttpError with_scope_def pubsub_callback_def prims added_def)

lemma show_int_404: "show_int 404 = ''404''"
  by (simp add: show_int_def show_nat.simps)

lemma example_unrecoverable_HttpError_acked:
  "pubsub_callback (raising_body (HttpError 404 ''not found'')) (example_run (Some ok_client)) =
     (Inr (),
      \<lparr>dts_client = Some ok_client, msgs = [], update_running = False,
       timeout_running = False, name = ''runs/r1'', timeout_interval = ''3600'', now = 0,
       trace = [LoggerLog INFO ''[runs/r1] [STARTING]'',
                TimerStart timer_update_bq_dts, TimerStart timer_timeout,
                LoggerLog INFO ''[runs/r1] BQ DTS ; Starting Run'', PatchState RUNNING,
                TimerStop timer_timeout, TimerStop timer_update_bq_dts,
                LoggerLog ERROR
                  ''Unrecoverable BigQuery Data Transfer Service API error - 404'',
                LoggerLog ERROR ''not found'', Ack]\<rparr>)"
  by (simp add: pubsub_callback_def with_scope_def enter_scope_def exit_scope_def prims
        example_run_def init_run_def raising_body_def ok_client_def show_int_404
        decode_utf8_def)

text \<open>
  C3. The claim fails where the body of the response is not well-formed UTF-8. The run body
  raises an HttpError with status 404 whose content is the single byte 0xFF, with a client
  configured. Scope exit stops the two timers and makes no call to the tracking service, and
  the error reaches the callback unchanged, as claimed. The callback logs the status; decoding
  the content for the second log line then raises \<open>UnicodeDecodeError\<close> inside the handler,
  and the callback ends with that exception: the message is neither acknowledged nor returned
  to the queue.
\<close>

theorem unrecoverable_HttpError_undecodable_content_not_acked:
  "with_scope (raising_body (HttpError 404 [CHR 0xFF])) (example_run (Some ok_client)) =
     (Inl (HttpError 404 [CHR 0xFF]),
      snd (with_scope (raising_body (HttpError 404 [CHR 0xFF])) (example_run (Some ok_client))))
   \<and> fst (pubsub_callback (raising_body (HttpError 404 [CHR 0xFF]))
             (example_run (Some ok_client))) = Inl (OtherError ''UnicodeDecodeError'')
   \<and> trace (snd (pubsub_callback (raising_body (HttpError 404 [CHR 0xFF]))
                    (example_run (Some ok_client)))) =
       [LoggerLog INFO ''[runs/r1] [STARTING]'',
        TimerStart timer_update_bq_dts, TimerStart timer_timeout,
        LoggerLog INFO ''[runs/r1] BQ DTS ; Starting Run'', PatchState RUNNING,
        TimerStop timer_timeout, TimerStop timer_update_bq_dts,
        LoggerLog ERROR ''Unrecoverable BigQuery Data Transfer Service API error - 404'']
   \<and> Ack \<notin> set (trace (snd (pubsub_callback (raising_body (HttpError 404 [CHR 0xFF]))
                                  (example_run (Some ok_client)))))
   \<and> Nack \<notin> set (trace (snd (pubsub_callback (raising_body (HttpError 404 [CHR 0xFF]))
                                   (example_run (Some ok_client)))))"
  by (simp add: pubsub_callback_def with_scope_def enter_scope_def exit_scope_def prims
        example_run_def init_run_def raising_body_def ok_client_def show_int_404
        decode_utf8_def)

text \<open>
  C4 (as amended). When the triggering error is an HttpError with a status other than 400 and
  404, scope exit likewise only stops the two timers: it sends nothing to the tracking
  service, so no FAILED state is reported, and it does not suppress the error. The callback
  then returns the message to the queue (nack) without acknowledging it.
\<close>

theorem recoverable_HttpError_short_circuit_and_nack:
  "status \<noteq> 400 \<and> status \<noteq> 404 \<Longrightarrow>
     fst (exit_scope (Some (HttpError status content)) s) = Inr False
   \<and> added s (snd (exit_scope (Some (HttpError status content)) s)) =
       [TimerStop timer_timeout, TimerStop timer_update_bq_dts]
   \<and> PatchState FAILED
        \<notin> set (added s (snd (exit_scope (Some (HttpError status content)) s)))
   \<and> (\<forall>s1 s2. enter_scope s0 = (Inr (), s1)
          \<and> body s1 = (Inl (HttpError status content), s2) \<longrightarrow>
        with_scope body s0 = (Inl (HttpError status content), snd (exit_scope (Some (HttpError status content)) s2)))
   \<and> (\<forall>s3. with_scope body s0 = (Inl (HttpError status content), s3) \<longrightarrow>
        fst (pubsub_callback body s0) = Inr ()
      \<and> added s3 (snd (pubsub_callback body s0)) = [Nack])"
  by (auto simp: exit_scope_HttpError with_scope_def pubsub_callback_def prims added_def)

theorem recoverable_HttpError_short_circuit_and_nack_witness:
  "((500::int) \<noteq> 400 \<and> (500::int) \<noteq> 404)
   \<and> enter_scope (example_run (Some ok_client)) =
       (Inr (), snd (enter_scope (example_run (Some ok_client))))
   \<and> with_scope (raising_body (HttpError 500 ''backend error''))
        (example_run (Some ok_client)) =
       (Inl (HttpError 500 ''backend error''),
        snd (with_scope (raising_body (HttpError 500 ''backend error''))
               (example_run (Some ok_client))))
   \<and> fst (pubsub_callback (raising_body (HttpError 500 ''backend error''))
             (example_run (Some ok_client))) = Inr ()
   \<and> trace (snd (pubsub_callback (raising_body (HttpError 500 ''backend error''))
                    (example_run (Some ok_client)))) =
       [LoggerLog INFO ''[runs/r1] [STARTING]'',
        TimerStart timer_update_bq_dts, TimerStart timer_timeout,
        LoggerLog INFO ''[runs/r1] BQ DTS ; Starting Run'', PatchState RUNNING,
        TimerStop timer_timeout, TimerStop timer_update_bq_dts, Nack]"
  using recoverable_HttpError_short_circuit_and_nack
          [of 500 "''backend error''" "example_run (Some ok_client)"
              "example_run (Some ok_client)"
              "raising_body (HttpError 500 ''backend error'')"]
  by (simp add: pubsub_callback_def with_scope_def enter_scope_def exit_scope_def prims
        examples)

theorem recoverable_HttpError_FAILED_counterexample:
  "trace (snd (pubsub_callback (raising_body (HttpError 500 ''backend error''))
                 (example_run (Some ok_client)))) =
     [LoggerLog INFO ''[runs/r1] [STARTING]'',
      TimerStart timer_update_bq_dts, TimerStart timer_timeout,
      LoggerLog INFO ''[runs/r1] BQ DTS ; Starting Run'', PatchState RUNNING,
      TimerStop timer_timeout, TimerStop timer_update_bq_dts, Nack]
   \<and> PatchState FAILED
        \<notin> set (trace (snd (pubsub_callback (raising_body (HttpError 500 ''backend error''))
                              (example_run (Some ok_client)))))"
  by (simp add: pubsub_callback_def with_scope_def enter_scope_def exit_scope_def prims
        examples)

section \<open>Validation failures and other errors\<close>

text \<open>
  C5 (as amended). Let the triggering error be any error that is not an HttpError. When scope
  exit returns, the error has been logged at ERROR severity right after the timers were
  stopped, scope exit suppresses the error exactly when it is an AssertionError, and FAILED has
  been reported to the tracking service if a client is configured; with no client configured
  nothing is sent. When the error came from the run body and scope exit returns, an
  AssertionError ends in the scope completing and the callback acknowledging the message, and
  every other such error leaves the scope and the callback unchanged after scope exit has
  finished, with the message neither acknowledged nor returned. When a call made in scope exit
  raises, scope exit does not return, and what it raises leaves the scope in place of the
  triggering error.
\<close>

theorem AssertionError_suppressed_other_errors_propagate:
  "\<not> is_HttpError (Some e) \<Longrightarrow>
     (\<forall>b. fst (exit_scope (Some e) s) = Inr b \<longrightarrow>
        b = (e = AssertionError)
      \<and> take 3 (added s (snd (exit_scope (Some e) s))) =
          [TimerStop timer_timeout, TimerStop timer_update_bq_dts,
           RunLoggerLog ERROR (format_exception e)]
      \<and> (dts_client s \<noteq> None \<longrightarrow>
           filter is_terminal_report (added s (snd (exit_scope (Some e) s))) =
             [PatchState FAILED])
      \<and> (dts_client s = None \<longrightarrow>
           filter is_dts_call (added s (snd (exit_scope (Some e) s))) = []))
   \<and> (\<forall>s1 s2 b s3. enter_scope s0 = (Inr (), s1) \<and> body s1 = (Inl e, s2)
          \<and> exit_scope (Some e) s2 = (Inr b, s3) \<longrightarrow>
        with_scope body s0 = (if e = AssertionError then (Inr (), s3) else (Inl e, s3))
      \<and> pubsub_callback body s0 =
          (if e = AssertionError then (Inr (), record_event Ack s3) else (Inl e, s3)))
   \<and> (\<forall>s1 s2 e' s3. enter_scope s0 = (Inr (), s1) \<and> body s1 = (Inl e, s2)
          \<and> exit_scope (Some e) s2 = (Inl e', s3) \<longrightarrow>
        with_scope body s0 = (Inl e', s3))"
proof (intro conjI allI impI)
  fix b
  assume h: "\<not> is_HttpError (Some e)" and r: "fst (exit_scope (Some e) s) = Inr b"
  show "b = (e = AssertionError)"
    using exit_scope_flag [OF r] by (cases e) simp_all
  show "take 3 (added s (snd (exit_scope (Some e) s))) =
          [TimerStop timer_timeout, TimerStop timer_update_bq_dts,
           RunLoggerLog ERROR (format_exception e)]"
  proof (cases "dts_client s")
    case None
    then show ?thesis using exit_scope_no_client(2) [OF None h] by simp
  next
    case (Some c)
    then show ?thesis using exit_scope_Some_client [OF Some h r] by simp
  qed
  show "filter is_terminal_report (added s (snd (exit_scope (Some e) s))) = [PatchState FAILED]"
    if "dts_client s \<noteq> None"
  proof -
    from that obtain c where c: "dts_client s = Some c" by auto
    show ?thesis using exit_scope_Some_client [OF c h r] by simp
  qed
  show "filter is_dts_call (added s (snd (exit_scope (Some e) s))) = []"
    if "dts_client s = None"
    using exit_scope_no_client(2) [OF that h] by simp
next
  fix s1 s2 b s3
  assume h: "\<not> is_HttpError (Some e)"
    and r: "enter_scope s0 = (Inr (), s1) \<and> body s1 = (Inl e, s2)
          \<and> exit_scope (Some e) s2 = (Inr b, s3)"
  have b: "b = is_AssertionError (Some e)"
    using r exit_scope_flag [of "Some e" s2 b] by simp
  show "with_scope body s0 = (if e = AssertionError then (Inr (), s3) else (Inl e, s3))"
    using r h b by (cases e) (simp_all add: with_scope_def bind_def)
  show "pubsub_callback body s0 =
          (if e = AssertionError then (Inr (), record_event Ack s3) else (Inl e, s3))"
    using r h b by (cases e) (simp_all add: pubsub_callback_def with_scope_def bind_def)
next
  fix s1 s2 e' s3
  assume "enter_scope s0 = (Inr (), s1) \<and> body s1 = (Inl e, s2)
          \<and> exit_scope (Some e) s2 = (Inl e', s3)"
  then show "with_scope body s0 = (Inl e', s3)"
    by (simp add: with_scope_def bind_def)
qed

theorem AssertionError_suppressed_other_errors_propagate_witness:
  "\<not> is_HttpError (Some AssertionError)
   \<and> enter_scope (example_run (Some ok_client)) =
       (Inr (), snd (enter_scope (example_run (Some ok_client))))
   \<and> fst (exit_scope (Some AssertionError) (snd (enter_scope (example_run (Some ok_client)))))
       = Inr True
   \<and> fst (pubsub_callback (raising_body AssertionError) (example_run (Some ok_client))) = Inr ()
   \<and> trace (snd (pubsub_callback (raising_body AssertionError)
                    (example_run (Some ok_client)))) =
       [LoggerLog INFO ''[runs/r1] [STARTING]'',
        TimerStart timer_update_bq_dts, TimerStart timer_timeout,
        LoggerLog INFO ''[runs/r1] BQ DTS ; Starting Run'', PatchState RUNNING,
        TimerStop timer_timeout, TimerStop timer_update_bq_dts,
        RunLoggerLog ERROR ''AssertionError'',
        LogMessages [\<lparr>message_time = 0, severity = Severity_ERROR,
                      message_text = ''AssertionError''\<rparr>],
        PatchState FAILED,
        LoggerLog INFO ''[runs/r1] BQ DTS ; Finishing Run - FAILED'',
        FinishRun,
        LoggerLog INFO ''[runs/r1] [FINISHED]'', Ack]
   \<and> \<not> is_HttpError (Some (OtherError ''boom''))
   \<and> fst (exit_scope (Some (OtherError ''boom''))
             (snd (enter_scope (example_run (Some ok_client))))) = Inr False
   \<and> fst (pubsub_callback (raising_body (OtherError ''boom'')) (example_run (Some ok_client)))
       = Inl (OtherError ''boom'')
   \<and> trace (snd (pubsub_callback (raising_body (OtherError ''boom''))
                    (example_run (Some ok_client)))) =
       [LoggerLog INFO ''[runs/r1] [STARTING]'',
        TimerStart timer_update_bq_dts, TimerStart timer_timeout,
        LoggerLog INFO ''[runs/r1] BQ DTS ; Starting Run'', PatchState RUNNING,
        TimerStop timer_timeout, TimerStop timer_update_bq_dts,
        RunLoggerLog ERROR ''boom'',
        LogMessages [\<lparr>message_time = 0, severity = Severity_ERROR,
                      message_text = ''boom''\<rparr>],
        PatchState FAILED,
        LoggerLog INFO ''[runs/r1] BQ DTS ; Finishing Run - FAILED'',
        FinishRun,
        LoggerLog INFO ''[runs/r1] [FINISHED]'']
   \<and> \<not> is_HttpError (Some TimeoutError)
   \<and> fst (exit_scope (Some TimeoutError) (snd (enter_scope (example_run (Some busy_client)))))
       = Inl (HttpError 503 ''unavailable'')
   \<and> fst (with_scope (raising_body TimeoutError) (example_run (Some busy_client)))
       = Inl (HttpError 503 ''unavailable'')"
  using AssertionError_suppressed_other_errors_propagate
          [of AssertionError "snd (enter_scope (example_run (Some ok_client)))"
              "example_run (Some ok_client)" "raising_body AssertionError"]
        AssertionError_suppressed_other_errors_propagate
          [of "OtherError ''boom''" "snd (enter_scope (example_run (Some ok_client)))"
              "example_run (Some ok_client)" "raising_body (OtherError ''boom'')"]
        AssertionError_suppressed_other_errors_propagate
          [of TimeoutError "snd (enter_scope (example_run (Some busy_client)))"
              "example_run (Some busy_client)" "raising_body TimeoutError"]
  by (simp add: pubsub_callback_def with_scope_def enter_scope_def exit_scope_def
        update_bq_dts_def prims examples)

theorem AssertionError_without_client_counterexample:
  "fst (pubsub_callback (raising_body AssertionError) (example_run None)) = Inr ()
   \<and> trace (snd (pubsub_callback (raising_body AssertionError) (example_run None))) =
       [LoggerLog INFO ''[runs/r1] [STARTING]'',
        TimerStart timer_update_bq_dts, TimerStart timer_timeout,
        TimerStop timer_timeout, TimerStop timer_update_bq_dts,
        RunLoggerLog ERROR ''AssertionError'',
        LoggerLog INFO ''[runs/r1] [FINISHED]'', Ack]
   \<and> PatchState FAILED
        \<notin> set (trace (snd (pubsub_callback (raising_body AssertionError)
                              (example_run None))))"
  by (simp add: pubsub_callback_def with_scope_def enter_scope_def exit_scope_def prims
        examples)

section \<open>Heartbeat tick\<close>

text \<open>
  C7 (as amended). Every heartbeat tick, with or without a client, first logs the
  informational "processing" entry into the buffer when the buffer is empty. When a client is
  configured the tick then makes exactly one submission, of the whole buffer, which is
  therefore not empty; a tick with no user-logged entries submits exactly the synthetic entry.
  With no client configured nothing is submitted. The buffer is cleared when the submission
  returns and when no client is configured; when the submission raises, the tick raises the
  same error and the batch stays in the buffer.
\<close>

theorem update_bq_dts_submits_nonempty_batch:
  "added s (snd (update_bq_dts s)) =
       (if msgs s = [] then [RunLoggerLog INFO processing_text] else [])
       @ (case dts_client s of
            None \<Rightarrow> []
          | Some c \<Rightarrow> [LogMessages (if msgs s = [] then [processing_msg s] else msgs s)])
   \<and> (if msgs s = [] then [processing_msg s] else msgs s) \<noteq> []
   \<and> fst (update_bq_dts s) =
       (case dts_client s of
          None \<Rightarrow> Inr ()
        | Some c \<Rightarrow>
            (case transfer_run_log_messages c
                    (trace s @ (if msgs s = [] then [RunLoggerLog INFO processing_text] else []))
                    (if msgs s = [] then [processing_msg s] else msgs s) of
               None \<Rightarrow> Inr ()
             | Some e \<Rightarrow> Inl e))
   \<and> msgs (snd (update_bq_dts s)) =
       (case fst (update_bq_dts s) of
          Inr u \<Rightarrow> []
        | Inl e \<Rightarrow> if msgs s = [] then [processing_msg s] else msgs s)"
  by (cases "msgs s = []"; cases "dts_client s")
     (simp_all add: update_bq_dts_def prims added_def processing_msg_def Let_def
        split: option.splits)

theorem update_bq_dts_submits_nonempty_batch_witness:
  "msgs (example_run None) = []
   \<and> fst (update_bq_dts (example_run None)) = Inr ()
   \<and> trace (snd (update_bq_dts (example_run None))) = [RunLoggerLog INFO processing_text]
   \<and> msgs (snd (update_bq_dts (example_run None))) = []
   \<and> msgs (example_run (Some ok_client)) = []
   \<and> fst (update_bq_dts (example_run (Some ok_client))) = Inr ()
   \<and> trace (snd (update_bq_dts (example_run (Some ok_client)))) =
       [RunLoggerLog INFO processing_text,
        LogMessages [\<lparr>message_time = 0, severity = Severity_INFO,
                      message_text = processing_text\<rparr>]]
   \<and> msgs (snd (update_bq_dts (example_run (Some ok_client)))) = []
   \<and> msgs (logged_run (Some ok_client)) =
       [\<lparr>message_time = 0, severity = Severity_INFO, message_text = ''loading date_greg''\<rparr>]
   \<and> fst (update_bq_dts (logged_run (Some ok_client))) = Inr ()
   \<and> trace (snd (update_bq_dts (logged_run (Some ok_client)))) =
       [RunLoggerLog INFO ''loading date_greg'',
        LogMessages [\<lparr>message_time = 0, severity = Severity_INFO,
                      message_text = ''loading date_greg''\<rparr>]]
   \<and> msgs (snd (update_bq_dts (logged_run (Some ok_client)))) = []"
  using update_bq_dts_submits_nonempty_batch [of "example_run None"]
        update_bq_dts_submits_nonempty_batch [of "example_run (Some ok_client)"]
        update_bq_dts_submits_nonempty_batch [of "logged_run (Some ok_client)"]
  by (simp add: update_bq_dts_def prims example_run_def init_run_def ok_client_def
        logged_run_def processing_msg_def)

theorem update_bq_dts_buffer_kept_counterexample:
  "fst (update_bq_dts (logged_run (Some busy_client))) = Inl (HttpError 503 ''unavailable'')
   \<and> trace (snd (update_bq_dts (logged_run (Some busy_client)))) =
       [RunLoggerLog INFO ''loading date_greg'',
        LogMessages [\<lparr>message_time = 0, severity = Severity_INFO,
                      message_text = ''loading date_greg''\<rparr>]]
   \<and> msgs (snd (update_bq_dts (logged_run (Some busy_client)))) =
       [\<lparr>message_time = 0, severity = Severity_INFO, message_text = ''loading date_greg''\<rparr>]
   \<and> msgs (snd (update_bq_dts (logged_run (Some busy_client)))) \<noteq> []"
  by (simp add: update_bq_dts_def prims example_run_def init_run_def busy_client_def
        logged_run_def)

text \<open>
  C10 (as amended). A heartbeat tick that returns leaves the buffer empty. With no client
  configured the tick always returns and sends nothing, so the entries in the buffer, the
  synthetic one included, are dropped. A tick whose submission raises does not reach the
  clearing of the buffer: the batch it tried to submit is still in the buffer afterwards.
\<close>

theorem update_bq_dts_clears_buffer_when_it_returns:
  "(fst (update_bq_dts s) = Inr () \<longrightarrow> msgs (snd (update_bq_dts s)) = [])
   \<and> (dts_client s = None \<longrightarrow>
        fst (update_bq_dts s) = Inr ()
      \<and> filter is_dts_call (added s (snd (update_bq_dts s))) = []
      \<and> msgs (snd (update_bq_dts s)) = [])
   \<and> (\<forall>e. fst (update_bq_dts s) = Inl e \<longrightarrow>
        msgs (snd (update_bq_dts s)) = (if msgs s = [] then [processing_msg s] else msgs s))"
  by (cases "msgs s = []"; cases "dts_client s")
     (simp_all add: update_bq_dts_def prims added_def processing_msg_def Let_def
        split: option.splits)

theorem update_bq_dts_clears_buffer_when_it_returns_witness:
  "dts_client (example_run None) = None
   \<and> fst (update_bq_dts (example_run None)) = Inr ()
   \<and> trace (snd (update_bq_dts (example_run None))) = [RunLoggerLog INFO processing_text]
   \<and> msgs (snd (update_bq_dts (example_run None))) = []
   \<and> fst (update_bq_dts (example_run (Some busy_client))) = Inl (HttpError 503 ''unavailable'')
   \<and> msgs (snd (update_bq_dts (example_run (Some busy_client)))) =
       [processing_msg (example_run (Some busy_client))]"
  using update_bq_dts_clears_buffer_when_it_returns [of "example_run None"]
        update_bq_dts_clears_buffer_when_it_returns [of "example_run (Some busy_client)"]
  by (simp add: update_bq_dts_def prims example_run_def init_run_def busy_client_def
        processing_msg_def)

theorem update_bq_dts_failed_submission_counterexample:
  "fst (update_bq_dts (example_run (Some busy_client))) = Inl (HttpError 503 ''unavailable'')
   \<and> msgs (snd (update_bq_dts (example_run (Some busy_client)))) =
       [\<lparr>message_time = 0, severity = Severity_INFO, message_text = processing_text\<rparr>]
   \<and> msgs (snd (update_bq_dts (example_run (Some busy_client)))) \<noteq> []"
  by (simp add: update_bq_dts_def prims example_run_def init_run_def busy_client_def)

section \<open>Scope entry\<close>

text \<open>
  C8 (as amended). Let a client be configured and let its first state report, RUNNING, raise
  \<open>e\<close>. Then scope entry has logged, started both timers and attempted the report, and what
  it does next is exactly scope exit with \<open>e\<close> as the triggering error, so that both timers
  are stopped in the end. Scope entry returns if and only if scope exit suppresses the error.
  When scope exit returns without suppressing it, scope entry raises \<open>e\<close> itself. When
  scope exit itself raises, because a call it makes to the tracking service fails, scope entry
  raises that exception instead of \<open>e\<close>.
\<close>

theorem enter_scope_failed_report_runs_exit:
  "dts_client s = Some c \<Longrightarrow>
   transfer_run_patch_state c
     (trace s @ [LoggerLog INFO (tag s @ '' [STARTING]''),
                 TimerStart timer_update_bq_dts, TimerStart timer_timeout,
                 LoggerLog INFO (tag s @ '' BQ DTS ; Starting Run'')]) RUNNING = Some e \<Longrightarrow>
   (\<exists>s5. trace s5 =
            trace s @ [LoggerLog INFO (tag s @ '' [STARTING]''),
                       TimerStart timer_update_bq_dts, TimerStart timer_timeout,
                       LoggerLog INFO (tag s @ '' BQ DTS ; Starting Run''),
                       PatchState RUNNING]
        \<and> update_running s5 \<and> timeout_running s5
        \<and> msgs s5 = msgs s \<and> dts_client s5 = dts_client s
        \<and> snd (enter_scope s) = snd (exit_scope (Some e) s5)
        \<and> (fst (enter_scope s) = Inr () \<longleftrightarrow> fst (exit_scope (Some e) s5) = Inr True)
        \<and> (fst (exit_scope (Some e) s5) = Inr False \<longrightarrow> fst (enter_scope s) = Inl e)
        \<and> (\<forall>e'. fst (exit_scope (Some e) s5) = Inl e' \<longrightarrow> fst (enter_scope s) = Inl e'))
   \<and> \<not> timeout_running (snd (enter_scope s))
   \<and> \<not> update_running (snd (enter_scope s))"
proof -
  assume c: "dts_client s = Some c"
    and f: "transfer_run_patch_state c
     (trace s @ [LoggerLog INFO (tag s @ '' [STARTING]''),
                 TimerStart timer_update_bq_dts, TimerStart timer_timeout,
                 LoggerLog INFO (tag s @ '' BQ DTS ; Starting Run'')]) RUNNING = Some e"
  let ?s5 = "record_event (PatchState RUNNING)
               (logger_log INFO (tag s @ '' BQ DTS ; Starting Run'')
                 (timer_start timer_timeout
                   (timer_start timer_update_bq_dts
                     (logger_log INFO (tag s @ '' [STARTING]'') s))))"
  have en: "enter_scope s =
              bind (exit_scope (Some e) ?s5)
                (\<lambda>suppress s6. if suppress then (Inr (), s6) else (Inl e, s6))"
    using c f
    by (simp add: enter_scope_def call_patch_state_def record_event_def logger_log_def
          timer_start_def tag_def Let_def)
  have st: "\<not> timeout_running (snd (exit_scope (Some e) ?s5))
          \<and> \<not> update_running (snd (exit_scope (Some e) ?s5))"
    using exit_scope_timers_stopped [of "Some e" ?s5] by simp
  obtain r s6 where x: "exit_scope (Some e) ?s5 = (r, s6)"
    by (cases "exit_scope (Some e) ?s5")
  have sn: "snd (enter_scope s) = snd (exit_scope (Some e) ?s5)"
    unfolding en x by (cases r) (simp_all add: bind_def)
  have "trace ?s5 =
            trace s @ [LoggerLog INFO (tag s @ '' [STARTING]''),
                       TimerStart timer_update_bq_dts, TimerStart timer_timeout,
                       LoggerLog INFO (tag s @ '' BQ DTS ; Starting Run''),
                       PatchState RUNNING]
        \<and> update_running ?s5 \<and> timeout_running ?s5
        \<and> msgs ?s5 = msgs s \<and> dts_client ?s5 = dts_client s"
    by (simp add: record_event_def logger_log_def timer_start_def tag_def)
  moreover have "(fst (enter_scope s) = Inr () \<longleftrightarrow> fst (exit_scope (Some e) ?s5) = Inr True)
        \<and> (fst (exit_scope (Some e) ?s5) = Inr False \<longrightarrow> fst (enter_scope s) = Inl e)
        \<and> (\<forall>e'. fst (exit_scope (Some e) ?s5) = Inl e' \<longrightarrow> fst (enter_scope s) = Inl e')"
    unfolding en x by (cases r) (auto simp: bind_def)
  ultimately show ?thesis
    using sn st by (intro conjI exI [of _ ?s5]) simp_all
qed

theorem enter_scope_failed_report_runs_exit_witness:
  "dts_client (example_run (Some unreachable_client)) = Some unreachable_client
   \<and> transfer_run_patch_state unreachable_client
        [LoggerLog INFO ''[runs/r1] [STARTING]'',
         TimerStart timer_update_bq_dts, TimerStart timer_timeout,
         LoggerLog INFO ''[runs/r1] BQ DTS ; Starting Run''] RUNNING =
       Some (OtherError ''ConnectionError'')
   \<and> fst (enter_scope (example_run (Some unreachable_client))) =
       Inl (OtherError ''ConnectionError'')
   \<and> trace (snd (enter_scope (example_run (Some unreachable_client)))) =
       [LoggerLog INFO ''[runs/r1] [STARTING]'',
        TimerStart timer_update_bq_dts, TimerStart timer_timeout,
        LoggerLog INFO ''[runs/r1] BQ DTS ; Starting Run'', PatchState RUNNING,
        TimerStop timer_timeout, TimerStop timer_update_bq_dts,
        RunLoggerLog ERROR ''ConnectionError'',
        LogMessages [\<lparr>message_time = 0, severity = Severity_ERROR,
                      message_text = ''ConnectionError''\<rparr>],
        PatchState FAILED,
        LoggerLog INFO ''[runs/r1] BQ DTS ; Finishing Run - FAILED'',
        FinishRun,
        LoggerLog INFO ''[runs/r1] [FINISHED]'']
   \<and> \<not> timeout_running (snd (enter_scope (example_run (Some unreachable_client))))
   \<and> \<not> update_running (snd (enter_scope (example_run (Some unreachable_client))))
   \<and> dts_client (example_run (Some asserting_client)) = Some asserting_client
   \<and> transfer_run_patch_state asserting_client
        [LoggerLog INFO ''[runs/r1] [STARTING]'',
         TimerStart timer_update_bq_dts, TimerStart timer_timeout,
         LoggerLog INFO ''[runs/r1] BQ DTS ; Starting Run''] RUNNING =
       Some AssertionError
   \<and> fst (enter_scope (example_run (Some asserting_client))) = Inr ()
   \<and> trace (snd (enter_scope (example_run (Some asserting_client)))) =
       [LoggerLog INFO ''[runs/r1] [STARTING]'',
        TimerStart timer_update_bq_dts, TimerStart timer_timeout,
        LoggerLog INFO ''[runs/r1] BQ DTS ; Starting Run'', PatchState RUNNING,
        TimerStop timer_timeout, TimerStop timer_update_bq_dts,
        RunLoggerLog ERROR ''AssertionError'',
        LogMessages [\<lparr>message_time = 0, severity = Severity_ERROR,
                      message_text = ''AssertionError''\<rparr>],
        PatchState FAILED,
        LoggerLog INFO ''[runs/r1] BQ DTS ; Finishing Run - FAILED'',
        FinishRun,
        LoggerLog INFO ''[runs/r1] [FINISHED]'']
   \<and> \<not> timeout_running (snd (enter_scope (example_run (Some asserting_client))))
   \<and> \<not> update_running (snd (enter_scope (example_run (Some asserting_client))))
   \<and> dts_client (example_run (Some down_client)) = Some down_client
   \<and> fst (enter_scope (example_run (Some down_client))) = Inl (HttpError 503 ''unavailable'')
   \<and> \<not> timeout_running (snd (enter_scope (example_run (Some down_client))))
   \<and> \<not> update_running (snd (enter_scope (example_run (Some down_client))))"
  using enter_scope_failed_report_runs_exit
          [of "example_run (Some unreachable_client)" unreachable_client
              "OtherError ''ConnectionError''"]
        enter_scope_failed_report_runs_exit
          [of "example_run (Some asserting_client)" asserting_client AssertionError]
        enter_scope_failed_report_runs_exit
          [of "example_run (Some down_client)" down_client "OtherError ''ConnectionError''"]
  by (simp add: enter_scope_def exit_scope_def update_bq_dts_def prims examples)

theorem enter_scope_exit_raises_counterexample:
  "transfer_run_patch_state down_client
        [LoggerLog INFO ''[runs/r1] [STARTING]'',
         TimerStart timer_update_bq_dts, TimerStart timer_timeout,
         LoggerLog INFO ''[runs/r1] BQ DTS ; Starting Run''] RUNNING =
       Some (OtherError ''ConnectionError'')
   \<and> fst (exit_scope (Some (OtherError ''ConnectionError''))
             (record_event (PatchState RUNNING)
               (logger_log INFO ''[runs/r1] BQ DTS ; Starting Run''
                 (timer_start timer_timeout
                   (timer_start timer_update_bq_dts
                     (logger_log INFO ''[runs/r1] [STARTING]''
                       (example_run (Some down_client)))))))) =
       Inl (HttpError 503 ''unavailable'')
   \<and> fst (enter_scope (example_run (Some down_client))) = Inl (HttpError 503 ''unavailable'')
   \<and> fst (enter_scope (example_run (Some down_client))) \<noteq> Inl (OtherError ''ConnectionError'')
   \<and> trace (snd (enter_scope (example_run (Some down_client)))) =
       [LoggerLog INFO ''[runs/r1] [STARTING]'',
        TimerStart timer_update_bq_dts, TimerStart timer_timeout,
        LoggerLog INFO ''[runs/r1] BQ DTS ; Starting Run'', PatchState RUNNING,
        TimerStop timer_timeout, TimerStop timer_update_bq_dts,
        RunLoggerLog ERROR ''ConnectionError'',
        LogMessages [\<lparr>message_time = 0, severity = Severity_ERROR,
                      message_text = ''ConnectionError''\<rparr>]]"
  by (simp add: enter_scope_def exit_scope_def update_bq_dts_def prims examples)

section \<open>Timeout callback\<close>

text \<open>
  The timeout callback puts one ERROR entry that names the configured interval into the
  buffer and raises \<open>TimeoutError\<close> in the thread that runs it. When the timer's thread
  runs it, and what the exception does to a run body in another thread, lies outside this
  model.
\<close>

lemma timeout_cb_logs_and_raises:
  "fst (timeout_cb s) = Inl TimeoutError
   \<and> added s (snd (timeout_cb s)) =
       [RunLoggerLog ERROR
          (''Transfer Run timed out after '' @ timeout_interval s @ '' second(s)!'')]
   \<and> msgs (snd (timeout_cb s)) =
       msgs s @ [\<lparr>message_time = now s, severity = Severity_ERROR,
                  message_text =
                    ''Transfer Run timed out after '' @ timeout_interval s @ '' second(s)!''\<rparr>]"
  by (simp add: timeout_cb_def prims added_def)

section \<open>The deep copy writes only to new objects\<close>

lemma deepcopy_frame:
  "deepcopy n v (h, m) = Inr (v', h', m') \<Longrightarrow> length h \<le> length h' \<and> take (length h) h' = h"
  "deepcopy_vals n vs (h, m) = Inr (vs', h', m') \<Longrightarrow>
     length h \<le> length h' \<and> take (length h) h' = h"
proof (induction n v "(h, m)" and n vs "(h, m)" arbitrary: h m v' h' m' and h m vs' h' m'
    rule: deepcopy_deepcopy_vals.induct)
  case (1 a h m)
  then show ?case by (auto split: option.splits)
next
  case (2 k a h m)
  show ?case
  proof (cases "m a")
    case (Some b)
    with 2(3) show ?thesis by simp
  next
    case None
    note ma = None
    show ?thesis
    proof (cases "heap_get h a")
      case None
      with ma 2(3) show ?thesis by simp
    next
      case (Some ob)
      show ?thesis
      proof (cases ob)
        case (PList vs)
        with ma Some 2(3) obtain vs1 h1 m1 where
          r: "deepcopy_vals k vs (h @ [PList []], m(a \<mapsto> length h)) = Inr (vs1, h1, m1)"
          and h': "h' = h1[length h := PList vs1]"
          by (auto split: sum.splits)
        from 2(2) [OF ma Some PList r]
        have l: "Suc (length h) \<le> length h1" and t: "take (Suc (length h)) h1 = h @ [PList []]"
          by simp_all
        have "take (length h) h1 = take (length h) (take (Suc (length h)) h1)"
          by (simp add: min_def)
        with t have "take (length h) h1 = h" by simp
        with l h' show ?thesis by simp
      next
        case (PDict kvs)
        with ma Some 2(3) obtain vs1 h1 m1 where
          r: "deepcopy_vals k (map snd kvs) (h @ [PDict []], m(a \<mapsto> length h)) =
                Inr (vs1, h1, m1)"
          and h': "h' = h1[length h := PDict (zip (map fst kvs) vs1)]"
          by (auto split: sum.splits)
        from 2(1) [OF ma Some PDict r]
        have l: "Suc (length h) \<le> length h1" and t: "take (Suc (length h)) h1 = h @ [PDict []]"
          by simp_all
        have "take (length h) h1 = take (length h) (take (Suc (length h)) h1)"
          by (simp add: min_def)
        with t have "take (length h) h1 = h" by simp
        with l h' show ?thesis by simp
      qed
    qed
  qed
next
  case (5 n v vs h m)
  from 5(3) obtain v1 h1 m1 vs2 where
    a: "deepcopy n v (h, m) = Inr (v1, h1, m1)"
    and b: "deepcopy_vals n vs (h1, m1) = Inr (vs2, h', m')"
    by (auto split: sum.splits)
  from 5(1) [OF a] have 1: "length h \<le> length h1" "take (length h) h1 = h" by simp_all
  from 5(2) [OF a refl refl b] have 2: "length h1 \<le> length h'" "take (length h1) h' = h1"
    by simp_all
  have "take (length h) h' = take (length h) (take (length h1) h')"
    using 1(1) by (simp add: min_def)
  with 1 2 show ?case by simp
qed simp_all

lemma fresh_inv_alloc:
  assumes "fresh_inv n0 h m" and "refs_of ob = {}"
  shows "fresh_inv n0 (h @ [ob]) (m(a \<mapsto> length h))"
proof -
  from assms(1) have n: "n0 \<le> length h"
    and mm: "\<And>x b. m x = Some b \<Longrightarrow> n0 \<le> b \<and> b < length h"
    and cc: "\<And>x r. n0 \<le> x \<Longrightarrow> x < length h \<Longrightarrow> r \<in> refs_of (h ! x) \<Longrightarrow>
                n0 \<le> r \<and> r < length h"
    unfolding fresh_inv_def by blast+
  show ?thesis
    unfolding fresh_inv_def
  proof (intro conjI allI impI)
    show "n0 \<le> length (h @ [ob])" using n by simp
  next
    fix x b
    assume "(m(a \<mapsto> length h)) x = Some b"
    then have "b = length h \<or> m x = Some b" by (simp split: if_splits)
    then show "n0 \<le> b" using n mm by auto
  next
    fix x b
    assume "(m(a \<mapsto> length h)) x = Some b"
    then have "b = length h \<or> m x = Some b" by (simp split: if_splits)
    then show "b < length (h @ [ob])" using mm by fastforce
  next
    fix x r
    assume a: "n0 \<le> x \<and> x < length (h @ [ob]) \<and> r \<in> refs_of ((h @ [ob]) ! x)"
    show "n0 \<le> r"
    proof (cases "x < length h")
      case True
      with a cc [of x r] show ?thesis by (simp add: nth_append)
    next
      case False
      with a have "x = length h" by simp
      with a assms(2) show ?thesis by simp
    qed
  next
    fix x r
    assume a: "n0 \<le> x \<and> x < length (h @ [ob]) \<and> r \<in> refs_of ((h @ [ob]) ! x)"
    show "r < length (h @ [ob])"
    proof (cases "x < length h")
      case True
      with a cc [of x r] show ?thesis by (simp add: nth_append)
    next
      case False
      with a have "x = length h" by simp
      with a assms(2) show ?thesis by simp
    qed
  qed
qed

lemma fresh_inv_write:
  assumes "fresh_inv n0 h m" and "\<And>r. r \<in> refs_of ob \<Longrightarrow> n0 \<le> r \<and> r < length h"
  shows "fresh_inv n0 (h[b := ob]) m"
proof -
  from assms(1) have n: "n0 \<le> length h"
    and mm: "\<And>x b. m x = Some b \<Longrightarrow> n0 \<le> b \<and> b < length h"
    and cc: "\<And>x r. n0 \<le> x \<Longrightarrow> x < length h \<Longrightarrow> r \<in> refs_of (h ! x) \<Longrightarrow>
                n0 \<le> r \<and> r < length h"
    unfolding fresh_inv_def by blast+
  have k: "n0 \<le> r \<and> r < length h"
    if "n0 \<le> x" "x < length h" "r \<in> refs_of (h[b := ob] ! x)" for x r
  proof (cases "x = b")
    case True
    with that assms(2) [of r] show ?thesis by simp
  next
    case False
    with that cc [of x r] show ?thesis by simp
  qed
  show ?thesis
    unfolding fresh_inv_def
  proof (intro conjI allI impI)
    show "n0 \<le> length (h[b := ob])" using n by simp
  next
    fix x c assume "m x = Some c"
    then show "n0 \<le> c" "c < length (h[b := ob])" using mm by auto
  next
    fix x r
    assume "n0 \<le> x \<and> x < length (h[b := ob]) \<and> r \<in> refs_of (h[b := ob] ! x)"
    then show "n0 \<le> r" "r < length (h[b := ob])" using k [of x r] by auto
  qed
qed

lemma refs_of_PList: "refs_of (PList vs) = {r. PRef r \<in> set vs}"
  by (simp add: refs_of_def)

lemma refs_of_zip: "r \<in> refs_of (PDict (zip ks vs)) \<Longrightarrow> PRef r \<in> set vs"
  by (auto simp: refs_of_def dest: set_zip_rightD)

lemma fresh_inv_memo:
  "fresh_inv n0 h m \<Longrightarrow> m a = Some b \<Longrightarrow> n0 \<le> b \<and> b < length h"
  unfolding fresh_inv_def by blast

lemma fresh_inv_length: "fresh_inv n0 h m \<Longrightarrow> n0 \<le> length h"
  unfolding fresh_inv_def by blast

lemma fresh_inv_cell:
  "fresh_inv n0 h m \<Longrightarrow> n0 \<le> a \<Longrightarrow> a < length h \<Longrightarrow> r \<in> refs_of (h ! a) \<Longrightarrow>
     n0 \<le> r \<and> r < length h"
  unfolding fresh_inv_def by blast

lemma deepcopy_fresh:
  "deepcopy n v (h, m) = Inr (v', h', m') \<Longrightarrow> fresh_inv n0 h m \<Longrightarrow>
     fresh_inv n0 h' m' \<and> (\<forall>r. v' = PRef r \<longrightarrow> n0 \<le> r \<and> r < length h')"
  "deepcopy_vals n vs (h, m) = Inr (vs', h', m') \<Longrightarrow> fresh_inv n0 h m \<Longrightarrow>
     fresh_inv n0 h' m' \<and> (\<forall>r. PRef r \<in> set vs' \<longrightarrow> n0 \<le> r \<and> r < length h')"
proof (induction n v "(h, m)" and n vs "(h, m)" arbitrary: h m v' h' m' and h m vs' h' m'
    rule: deepcopy_deepcopy_vals.induct)
  case (1 a h m)
  then obtain b where "m a = Some b" "v' = PRef b" "h' = h" "m' = m"
    by (auto split: option.splits)
  with 1(2) fresh_inv_memo [of n0 h m a b] show ?case by simp
next
  case (2 k a h m)
  note inv = 2(4)
  show ?case
  proof (cases "m a")
    case (Some b)
    with 2(3) have "v' = PRef b" "h' = h" "m' = m" by simp_all
    with inv fresh_inv_memo [OF inv Some] show ?thesis by simp
  next
    case None
    note ma = None
    show ?thesis
    proof (cases "heap_get h a")
      case None
      with ma 2(3) show ?thesis by simp
    next
      case (Some ob)
      show ?thesis
      proof (cases ob)
        case (PList vs)
        with ma Some 2(3) obtain vs1 h1 m1 where
          r: "deepcopy_vals k vs (h @ [PList []], m(a \<mapsto> length h)) = Inr (vs1, h1, m1)"
          and h': "h' = h1[length h := PList vs1]" and v': "v' = PRef (length h)"
          and m': "m' = m1"
          by (auto split: sum.splits)
        have i0: "fresh_inv n0 (h @ [PList []]) (m(a \<mapsto> length h))"
          by (rule fresh_inv_alloc [OF inv]) (simp add: refs_of_def)
        from 2(2) [OF ma Some PList r i0]
        have i1: "fresh_inv n0 h1 m1"
          and f1: "\<forall>r. PRef r \<in> set vs1 \<longrightarrow> n0 \<le> r \<and> r < length h1"
          by simp_all
        from deepcopy_frame(2) [OF r] have l: "Suc (length h) \<le> length h1" by simp
        have "fresh_inv n0 h' m'"
          unfolding h' m' by (rule fresh_inv_write [OF i1]) (use f1 in \<open>simp add: refs_of_PList\<close>)
        moreover have "n0 \<le> length h" using inv by (rule fresh_inv_length)
        ultimately show ?thesis using l by (simp add: v' h')
      next
        case (PDict kvs)
        with ma Some 2(3) obtain vs1 h1 m1 where
          r: "deepcopy_vals k (map snd kvs) (h @ [PDict []], m(a \<mapsto> length h)) =
                Inr (vs1, h1, m1)"
          and h': "h' = h1[length h := PDict (zip (map fst kvs) vs1)]"
          and v': "v' = PRef (length h)" and m': "m' = m1"
          by (auto split: sum.splits)
        have i0: "fresh_inv n0 (h @ [PDict []]) (m(a \<mapsto> length h))"
          by (rule fresh_inv_alloc [OF inv]) (simp add: refs_of_def)
        from 2(1) [OF ma Some PDict r i0]
        have i1: "fresh_inv n0 h1 m1"
          and f1: "\<forall>r. PRef r \<in> set vs1 \<longrightarrow> n0 \<le> r \<and> r < length h1"
          by simp_all
        from deepcopy_frame(2) [OF r] have l: "Suc (length h) \<le> length h1" by simp
        have "fresh_inv n0 h' m'"
          unfolding h' m'
          by (rule fresh_inv_write [OF i1]) (use f1 in \<open>auto dest: refs_of_zip\<close>)
        moreover have "n0 \<le> length h" using inv by (rule fresh_inv_length)
        ultimately show ?thesis using l by (simp add: v' h')
      qed
    qed
  qed
next
  case (5 n v vs h m)
  from 5(3) obtain v1 h1 m1 vs2 where
    a: "deepcopy n v (h, m) = Inr (v1, h1, m1)"
    and b: "deepcopy_vals n vs (h1, m1) = Inr (vs2, h', m')"
    and vs': "vs' = v1 # vs2"
    by (auto split: sum.splits)
  from 5(1) [OF a 5(4)] have i1: "fresh_inv n0 h1 m1"
    and f1: "\<forall>r. v1 = PRef r \<longrightarrow> n0 \<le> r \<and> r < length h1" by simp_all
  from 5(2) [OF a refl refl b i1] have i2: "fresh_inv n0 h' m'"
    and f2: "\<forall>r. PRef r \<in> set vs2 \<longrightarrow> n0 \<le> r \<and> r < length h'" by simp_all
  from deepcopy_frame(2) [OF b] have "length h1 \<le> length h'" by simp
  with f1 have f1': "\<forall>r. v1 = PRef r \<longrightarrow> n0 \<le> r \<and> r < length h'" by auto
  show ?case
  proof (intro conjI allI impI)
    show "fresh_inv n0 h' m'" by (rule i2)
  next
    fix r assume "PRef r \<in> set vs'"
    then have "v1 = PRef r \<or> PRef r \<in> set vs2" by (auto simp: vs')
    with f1' f2 show "n0 \<le> r" "r < length h'" by auto
  qed
qed simp_all

section \<open>to_ImportedDataInfo\<close>

lemma first_table_def_ref:
  assumes "first_table_def defs h = Inr (PRef t)"
  shows "\<exists>l xs. defs = PRef l \<and> l < length h \<and> h ! l = PList (PRef t # xs)"
  using assms
  by (cases defs)
     (auto simp: first_table_def_def heap_get_def
        split: option.splits pyobj.splits list.splits if_splits)

lemma set_source_uris_heap:
  "snd (set_source_uris r fd u h) = h
   \<or> (\<exists>t tkvs. fd = PRef t \<and> t < length h \<and> h ! t = PDict tkvs
        \<and> set_source_uris r fd u h =
            (Inr r, h[t := PDict (AList.update ''source_uris'' u tkvs)]))"
  by (cases fd)
     (auto simp: set_source_uris_def heap_get_def split: option.splits pyobj.splits)

lemma set_source_uris_Inr:
  assumes "fst (set_source_uris r fd u h) = Inr x"
  shows "\<exists>t tkvs. fd = PRef t \<and> t < length h \<and> h ! t = PDict tkvs \<and> x = r
        \<and> set_source_uris r fd u h =
            (Inr r, h[t := PDict (AList.update ''source_uris'' u tkvs)])"
  using assms
  by (cases fd)
     (auto simp: set_source_uris_def heap_get_def split: option.splits pyobj.splits if_splits)

lemma map_of_table_defs:
  "map_of (AList.update ''destination_table_id'' v
             (AList.delete ''destination_table_id_template'' kvs)) ''table_defs'' =
     map_of kvs ''table_defs''"
  by (simp add: update_conv')

lemma map_of_refs_of:
  "map_of kvs k = Some (PRef l) \<Longrightarrow> l \<in> refs_of (PDict kvs)"
  by (force simp: refs_of_def dest: map_of_SomeD)

lemma to_ImportedDataInfo_frame:
  "take (length h) (snd (to_ImportedDataInfo depth self h)) = h"
proof (cases "deepcopy depth (imported_data_info self) (h, Map.empty)")
  case (Inl e)
  then show ?thesis by (simp add: to_ImportedDataInfo_def)
next
  case (Inr res)
  obtain table_idi h1 m where res: "res = (table_idi, h1, m)" by (cases res)
  note dc = Inr [unfolded res]
  from deepcopy_frame(1) [OF dc] have fr: "length h \<le> length h1" "take (length h) h1 = h"
    by simp_all
  have "fresh_inv (length h) h Map.empty" by (simp add: fresh_inv_def)
  from deepcopy_fresh(1) [OF dc this] have fi: "fresh_inv (length h) h1 m"
    and dfresh: "\<forall>r. table_idi = PRef r \<longrightarrow> length h \<le> r \<and> r < length h1" by simp_all
  show ?thesis
  proof (cases table_idi)
    case (PRef d)
    with dfresh have d: "length h \<le> d" "d < length h1" by simp_all
    show ?thesis
    proof (cases "h1 ! d")
      case (PList vs)
      with dc PRef d fr show ?thesis by (simp add: to_ImportedDataInfo_def heap_get_def)
    next
      case (PDict kvs)
      define kvs2 where "kvs2 = AList.update ''destination_table_id'' (table_name self)
                                  (AList.delete ''destination_table_id_template'' kvs)"
      define h2 where "h2 = h1[d := PDict kvs2]"
      have t2: "take (length h) h2 = h" using d fr by (simp add: h2_def)
      have eq: "to_ImportedDataInfo depth self h =
                  (case map_of kvs2 ''table_defs'' of
                     None \<Rightarrow> (Inl KeyError, h2)
                   | Some defs \<Rightarrow>
                       (case first_table_def defs h2 of
                          Inl e \<Rightarrow> (Inl e, h2)
                        | Inr first_def \<Rightarrow>
                            set_source_uris (PRef d) first_def (uris self) h2))"
        unfolding kvs2_def h2_def using dc PRef d PDict
        by (simp add: to_ImportedDataInfo_def heap_get_def Let_def)
      show ?thesis
      proof (cases "map_of kvs2 ''table_defs''")
        case None
        with eq t2 show ?thesis by simp
      next
        case (Some defs)
        show ?thesis
        proof (cases "first_table_def defs h2")
          case (Inl e)
          with eq Some t2 show ?thesis by simp
        next
          case (Inr fd)
          with eq Some have eq2: "to_ImportedDataInfo depth self h =
             set_source_uris (PRef d) fd (uris self) h2" by simp
          from set_source_uris_heap [of "PRef d" fd "uris self" h2]
          show ?thesis
          proof
            assume "snd (set_source_uris (PRef d) fd (uris self) h2) = h2"
            with eq2 t2 show ?thesis by simp
          next
            assume "\<exists>t tkvs. fd = PRef t \<and> t < length h2 \<and> h2 ! t = PDict tkvs
              \<and> set_source_uris (PRef d) fd (uris self) h2 =
                  (Inr (PRef d), h2[t := PDict (AList.update ''source_uris'' (uris self) tkvs)])"
            then obtain t tkvs where fd: "fd = PRef t"
              and w: "set_source_uris (PRef d) fd (uris self) h2 =
                  (Inr (PRef d), h2[t := PDict (AList.update ''source_uris'' (uris self) tkvs)])"
              by blast
            from first_table_def_ref [OF Inr [unfolded fd]] obtain l xs where
              defs: "defs = PRef l" and l: "l < length h2" and hl: "h2 ! l = PList (PRef t # xs)"
              by blast
            have "l \<noteq> d" using hl d by (auto simp: h2_def)
            with hl have hl1: "h1 ! l = PList (PRef t # xs)" by (simp add: h2_def)
            from Some defs have "map_of kvs ''table_defs'' = Some (PRef l)"
              by (simp add: kvs2_def map_of_table_defs)
            then have "l \<in> refs_of (h1 ! d)" unfolding PDict by (rule map_of_refs_of)
            from fresh_inv_cell [OF fi d this] have lf: "length h \<le> l" "l < length h1"
              by simp_all
            have "t \<in> refs_of (h1 ! l)" by (simp add: hl1 refs_of_def)
            from fresh_inv_cell [OF fi lf this] have "length h \<le> t" by simp
            with eq2 w t2 show ?thesis by simp
          qed
        qed
      qed
    qed
  qed (use dc fr in \<open>simp_all add: to_ImportedDataInfo_def\<close>)
qed

lemma to_ImportedDataInfo_Inr:
  assumes "fst (to_ImportedDataInfo depth self h) = Inr r"
  shows "\<exists>d h1 m kvs l xs t tkvs.
      deepcopy depth (imported_data_info self) (h, Map.empty) = Inr (PRef d, h1, m)
    \<and> r = PRef d \<and> d < length h1 \<and> h1 ! d = PDict kvs
    \<and> map_of kvs ''table_defs'' = Some (PRef l)
    \<and> l < length h1 \<and> l \<noteq> d \<and> h1 ! l = PList (PRef t # xs)
    \<and> t < length h1 \<and> t \<noteq> l
    \<and> h1[d := PDict (AList.update ''destination_table_id'' (table_name self)
                       (AList.delete ''destination_table_id_template'' kvs))] ! t = PDict tkvs
    \<and> snd (to_ImportedDataInfo depth self h) =
        h1[d := PDict (AList.update ''destination_table_id'' (table_name self)
                         (AList.delete ''destination_table_id_template'' kvs)),
           t := PDict (AList.update ''source_uris'' (uris self) tkvs)]"
proof (cases "deepcopy depth (imported_data_info self) (h, Map.empty)")
  case (Inl e)
  with assms show ?thesis by (simp add: to_ImportedDataInfo_def)
next
  case (Inr res)
  obtain table_idi h1 m where res: "res = (table_idi, h1, m)" by (cases res)
  note dc = Inr [unfolded res]
  show ?thesis
  proof (cases table_idi)
    case (PRef d)
    note dc = dc [unfolded PRef]
    show ?thesis
    proof (cases "heap_get h1 d")
      case None
      with dc assms show ?thesis by (simp add: to_ImportedDataInfo_def)
    next
      case (Some ob)
      then have d: "d < length h1" and ob: "h1 ! d = ob"
        by (simp_all add: heap_get_def split: if_splits)
      show ?thesis
      proof (cases ob)
        case (PList vs)
        with dc Some assms show ?thesis by (simp add: to_ImportedDataInfo_def)
      next
        case (PDict kvs)
        define kvs2 where "kvs2 = AList.update ''destination_table_id'' (table_name self)
                                    (AList.delete ''destination_table_id_template'' kvs)"
        define h2 where "h2 = h1[d := PDict kvs2]"
        have eq: "to_ImportedDataInfo depth self h =
                    (case map_of kvs2 ''table_defs'' of
                       None \<Rightarrow> (Inl KeyError, h2)
                     | Some defs \<Rightarrow>
                         (case first_table_def defs h2 of
                            Inl e \<Rightarrow> (Inl e, h2)
                          | Inr first_def \<Rightarrow>
                              set_source_uris (PRef d) first_def (uris self) h2))"
          unfolding kvs2_def h2_def using dc Some PDict
          by (simp add: to_ImportedDataInfo_def Let_def)
        show ?thesis
        proof (cases "map_of kvs2 ''table_defs''")
          case None
          with eq assms show ?thesis by simp
        next
          case (Some defs)
          note defs = Some
          show ?thesis
          proof (cases "first_table_def defs h2")
            case (Inl e)
            with eq defs assms show ?thesis by simp
          next
            case (Inr fd)
            with eq defs have eq2: "to_ImportedDataInfo depth self h =
               set_source_uris (PRef d) fd (uris self) h2" by simp
            with assms have "fst (set_source_uris (PRef d) fd (uris self) h2) = Inr r" by simp
            from set_source_uris_Inr [OF this] obtain t tkvs where
              fd: "fd = PRef t" and t: "t < length h2" and ht: "h2 ! t = PDict tkvs"
              and r: "r = PRef d"
              and w: "set_source_uris (PRef d) fd (uris self) h2 =
                  (Inr (PRef d), h2[t := PDict (AList.update ''source_uris'' (uris self) tkvs)])"
              by blast
            from first_table_def_ref [OF Inr [unfolded fd]] obtain l xs where
              dl: "defs = PRef l" and l: "l < length h2" and hl: "h2 ! l = PList (PRef t # xs)"
              by blast
            have ld: "l \<noteq> d" using hl d by (auto simp: h2_def)
            with hl have hl1: "h1 ! l = PList (PRef t # xs)" by (simp add: h2_def)
            have tl: "t \<noteq> l" using hl ht by auto
            from defs dl have td: "map_of kvs ''table_defs'' = Some (PRef l)"
              by (simp add: kvs2_def map_of_table_defs)
            show ?thesis
              using dc r d ob PDict td l ld hl1 t tl ht eq2 w
              unfolding h2_def kvs2_def
              by (intro exI [of _ d] exI [of _ h1] exI [of _ m] exI [of _ kvs] exI [of _ l]
                    exI [of _ xs] exI [of _ t] exI [of _ tkvs]) simp
          qed
        qed
      qed
    qed
  qed (use dc assms in \<open>simp_all add: to_ImportedDataInfo_def\<close>)
qed

lemma to_ImportedDataInfo_result:
  assumes "fst (to_ImportedDataInfo depth self h) = Inr r"
  shows "is_dict (snd (to_ImportedDataInfo depth self h)) r
    \<and> dict_get (snd (to_ImportedDataInfo depth self h)) r ''destination_table_id_template'' = None
    \<and> dict_get (snd (to_ImportedDataInfo depth self h)) r ''destination_table_id'' =
        Some (table_name self)
    \<and> (\<exists>defs first.
          dict_get (snd (to_ImportedDataInfo depth self h)) r ''table_defs'' = Some defs
        \<and> list_first (snd (to_ImportedDataInfo depth self h)) defs = Some first
        \<and> dict_get (snd (to_ImportedDataInfo depth self h)) first ''source_uris'' =
            Some (uris self))"
proof -
  from to_ImportedDataInfo_Inr [OF assms] obtain d h1 m kvs l xs t tkvs where
    r: "r = PRef d" and d: "d < length h1"
    and td: "map_of kvs ''table_defs'' = Some (PRef l)"
    and l: "l < length h1" "l \<noteq> d" "h1 ! l = PList (PRef t # xs)"
    and t: "t < length h1" "t \<noteq> l"
    and ht: "h1[d := PDict (AList.update ''destination_table_id'' (table_name self)
                       (AList.delete ''destination_table_id_template'' kvs))] ! t = PDict tkvs"
    and h': "snd (to_ImportedDataInfo depth self h) =
        h1[d := PDict (AList.update ''destination_table_id'' (table_name self)
                         (AList.delete ''destination_table_id_template'' kvs)),
           t := PDict (AList.update ''source_uris'' (uris self) tkvs)]"
    by blast
  show ?thesis
  proof (cases "t = d")
    case True
    with ht d have tk: "tkvs = AList.update ''destination_table_id'' (table_name self)
                       (AList.delete ''destination_table_id_template'' kvs)" by simp
    show ?thesis
      unfolding h' r using True d l t td
      by (simp add: is_dict_def dict_get_def list_first_def heap_get_def tk update_conv'
            delete_conv')
  next
    case False
    with ht t have "h1 ! t = PDict tkvs" by simp
    then show ?thesis
      unfolding h' r using False d l t td
      by (simp add: is_dict_def dict_get_def list_first_def heap_get_def update_conv'
            delete_conv')
  qed
qed

section \<open>The deep copy of a closed store succeeds\<close>

lemma closed_heap_refs:
  assumes "closed_heap h" and "a < length h" and "r \<in> refs_of (h ! a)"
  shows "r < length h"
proof -
  from assms(1,2) have
    *: "list_all (\<lambda>r. r < length h) (concat (map ref_addrs (obj_values (h ! a))))"
    by (simp add: closed_heap_def list_all_length)
  from assms(3) have "PRef r \<in> set (obj_values (h ! a))"
    by (cases "h ! a") (auto simp: refs_of_def obj_values_def)
  then have "r \<in> set (concat (map ref_addrs (obj_values (h ! a))))"
    by force
  with * show ?thesis by (auto simp: list_all_iff)
qed

lemma copied_mono:
  assumes "m \<subseteq>\<^sub>m m'" and "copied m v v'"
  shows "copied m' v v'"
proof (cases v)
  case (PRef a)
  with assms(2) obtain b where b: "m a = Some b" "v' = PRef b"
    by (auto split: option.splits)
  with assms(1) have "m' a = Some b" by (auto simp: map_le_def dom_def)
  with b PRef show ?thesis by simp
qed (use assms(2) in simp_all)

lemma copied_list_mono:
  assumes "m \<subseteq>\<^sub>m m'" and "list_all2 (copied m) vs vs'"
  shows "list_all2 (copied m') vs vs'"
  using assms(2) by (rule list_all2_mono) (rule copied_mono [OF assms(1)])

lemma copied_obj_mono:
  assumes "m \<subseteq>\<^sub>m m'" and "copied_obj m ob ob'"
  shows "copied_obj m' ob ob'"
  using assms(2) copied_list_mono [OF assms(1)]
  by (cases ob; cases ob') auto

lemma copy_inv_take: "copy_inv h0 ip h m \<Longrightarrow> take (length h0) h = h0"
  unfolding copy_inv_def by blast

lemma copy_inv_length:
  assumes "copy_inv h0 ip h m"
  shows "length h0 \<le> length h"
proof -
  have "length (take (length h0) h) = length h0"
    using copy_inv_take [OF assms] by simp
  then show ?thesis by simp
qed

lemma copy_inv_old:
  assumes "copy_inv h0 ip h m" and "a < length h0"
  shows "h ! a = h0 ! a"
proof -
  have "take (length h0) h ! a = h ! a" using assms(2) by simp
  with copy_inv_take [OF assms(1)] show ?thesis by simp
qed

lemma copy_inv_entry:
  "copy_inv h0 ip h m \<Longrightarrow> m a = Some b \<Longrightarrow> a < length h0 \<and> length h0 \<le> b \<and> b < length h"
  unfolding copy_inv_def by blast

lemma copy_inv_done:
  "copy_inv h0 ip h m \<Longrightarrow> m a = Some b \<Longrightarrow> a \<notin> ip \<Longrightarrow> copied_obj m (h0 ! a) (h ! b)"
  unfolding copy_inv_def by blast

lemma copy_invI:
  assumes "take (length h0) h = h0"
    and "\<And>a b. m a = Some b \<Longrightarrow> a < length h0 \<and> length h0 \<le> b \<and> b < length h"
    and "\<And>a b. m a = Some b \<Longrightarrow> a \<notin> ip \<Longrightarrow> copied_obj m (h0 ! a) (h ! b)"
  shows "copy_inv h0 ip h m"
  unfolding copy_inv_def using assms by blast

lemma copy_inv_alloc:
  assumes inv: "copy_inv h0 ip h m" and a: "a < length h0" and ma: "m a = None"
  shows "copy_inv h0 (insert a ip) (h @ [ob]) (m(a \<mapsto> length h))"
proof (rule copy_invI)
  show "take (length h0) (h @ [ob]) = h0"
    using copy_inv_take [OF inv] copy_inv_length [OF inv] by simp
next
  fix x b
  assume e: "(m(a \<mapsto> length h)) x = Some b"
  show "x < length h0 \<and> length h0 \<le> b \<and> b < length (h @ [ob])"
  proof (cases "x = a")
    case True
    with e a copy_inv_length [OF inv] show ?thesis by simp
  next
    case False
    with e have "m x = Some b" by simp
    from copy_inv_entry [OF inv this] show ?thesis by simp
  qed
next
  fix x b
  assume e: "(m(a \<mapsto> length h)) x = Some b" and x: "x \<notin> insert a ip"
  then have mx: "m x = Some b" and xip: "x \<notin> ip" by (simp_all split: if_splits)
  have le: "m \<subseteq>\<^sub>m m(a \<mapsto> length h)" using ma by (auto simp: map_le_def)
  from copy_inv_entry [OF inv mx] have "b < length h" by simp
  then have "(h @ [ob]) ! b = h ! b" by (simp add: nth_append)
  with copied_obj_mono [OF le copy_inv_done [OF inv mx xip]]
  show "copied_obj (m(a \<mapsto> length h)) (h0 ! x) ((h @ [ob]) ! b)" by simp
qed

lemma copy_inv_finish:
  assumes inv: "copy_inv h0 (insert a ip) h1 m1" and ma: "m1 a = Some b"
    and inj: "\<And>x c. m1 x = Some c \<Longrightarrow> x \<noteq> a \<Longrightarrow> c \<noteq> b"
    and ob: "copied_obj m1 (h0 ! a) ob"
  shows "copy_inv h0 ip (h1[b := ob]) m1"
proof (rule copy_invI)
  from copy_inv_entry [OF inv ma] have b: "length h0 \<le> b" "b < length h1" by simp_all
  then show "take (length h0) (h1[b := ob]) = h0"
    using copy_inv_take [OF inv] by simp
  fix x c
  assume e: "m1 x = Some c"
  from copy_inv_entry [OF inv e]
  show "x < length h0 \<and> length h0 \<le> c \<and> c < length (h1[b := ob])" by simp
  assume x: "x \<notin> ip"
  show "copied_obj m1 (h0 ! x) (h1[b := ob] ! c)"
  proof (cases "x = a")
    case True
    with e ma have "c = b" by simp
    with True b ob show ?thesis by simp
  next
    case False
    with inj [OF e] have "c \<noteq> b" by simp
    moreover from False x have "x \<notin> insert a ip" by simp
    ultimately show ?thesis using copy_inv_done [OF inv e] by simp
  qed
qed

lemma card_unmemo_step:
  assumes "a < n0" and "m a = None" and "card ({..<n0} - dom m) \<le> Suc k"
  shows "card ({..<n0} - dom (m(a \<mapsto> b))) \<le> k"
proof -
  have "{..<n0} - dom (m(a \<mapsto> b)) = ({..<n0} - dom m) - {a}" by auto
  moreover have "a \<in> {..<n0} - dom m" using assms(1,2) by (auto simp: dom_def)
  ultimately show ?thesis using assms(3) by simp
qed

lemma card_unmemo_mono:
  assumes "m \<subseteq>\<^sub>m m'"
  shows "card ({..<n0} - dom m') \<le> card ({..<n0::nat} - dom m)"
proof (rule card_mono)
  show "finite ({..<n0} - dom m)" by simp
  from assms have "dom m \<subseteq> dom m'" by (rule map_le_implies_dom_le)
  then show "{..<n0} - dom m' \<subseteq> {..<n0} - dom m" by auto
qed

lemma card_unmemo_pos:
  assumes "a < n0" and "m a = None"
  shows "0 < card ({..<n0::nat} - dom m)"
proof -
  have "a \<in> {..<n0} - dom m" using assms by (auto simp: dom_def)
  then show ?thesis by (metis card_gt_0_iff empty_iff finite_Diff finite_lessThan)
qed

lemma copy_post_refl:
  "copy_inv h0 ip h m \<Longrightarrow> copy_post h0 ip h m h m"
  by (simp add: copy_post_def)

lemma copy_post_trans:
  assumes "copy_post h0 ip h m h1 m1" and "copy_post h0 ip h1 m1 h2 m2"
  shows "copy_post h0 ip h m h2 m2"
  unfolding copy_post_def
proof (intro conjI allI impI)
  show "copy_inv h0 ip h2 m2" using assms(2) by (simp add: copy_post_def)
  show "m \<subseteq>\<^sub>m m2" using assms by (auto simp: copy_post_def intro: map_le_trans)
  show "length h \<le> length h2" using assms by (simp add: copy_post_def)
  fix x b assume "m2 x = Some b"
  with assms(2) have "m1 x = Some b \<or> length h1 \<le> b" by (simp add: copy_post_def)
  then show "m x = Some b \<or> length h \<le> b"
  proof
    assume "m1 x = Some b"
    with assms(1) show ?thesis by (simp add: copy_post_def)
  next
    assume "length h1 \<le> b"
    moreover from assms(1) have "length h \<le> length h1" by (simp add: copy_post_def)
    ultimately show ?thesis by simp
  qed
qed

lemma copy_post_finish:
  assumes inv: "copy_inv h0 ip h m" and ma: "m a = None"
    and post: "copy_post h0 (insert a ip) (h @ [ob0]) (m(a \<mapsto> length h)) h1 m1"
    and ob: "copied_obj m1 (h0 ! a) ob"
  shows "copy_post h0 ip h m (h1[length h := ob]) m1"
proof -
  from post have inv1: "copy_inv h0 (insert a ip) h1 m1"
    and le1: "m(a \<mapsto> length h) \<subseteq>\<^sub>m m1"
    and len1: "Suc (length h) \<le> length h1"
    and new1: "\<And>x b. m1 x = Some b \<Longrightarrow> (m(a \<mapsto> length h)) x = Some b \<or> Suc (length h) \<le> b"
    by (simp_all add: copy_post_def)
  from le1 have m1a: "m1 a = Some (length h)" by (auto simp: map_le_def dom_def)
  have inj: "c \<noteq> length h" if "m1 x = Some c" "x \<noteq> a" for x c
  proof -
    from new1 [OF that(1)] that(2) have "m x = Some c \<or> Suc (length h) \<le> c" by simp
    then show ?thesis
    proof
      assume "m x = Some c"
      from copy_inv_entry [OF inv this] show ?thesis by simp
    qed simp
  qed
  have "copy_inv h0 ip (h1[length h := ob]) m1"
    by (rule copy_inv_finish [OF inv1 m1a inj ob])
  moreover have "m \<subseteq>\<^sub>m m1"
  proof (rule map_le_trans [OF _ le1])
    show "m \<subseteq>\<^sub>m m(a \<mapsto> length h)" using ma by (auto simp: map_le_def)
  qed
  moreover have "m x = Some b \<or> length h \<le> b" if "m1 x = Some b" for x b
    using new1 [OF that] by (auto split: if_splits)
  ultimately show ?thesis using len1 by (simp add: copy_post_def)
qed

lemma deepcopy_total:
  "closed_heap h0 \<Longrightarrow> copy_inv h0 ip h m \<Longrightarrow> (\<forall>r. v = PRef r \<longrightarrow> r < length h0) \<Longrightarrow>
   card ({..<length h0} - dom m) \<le> n \<Longrightarrow>
     \<exists>v' h' m'. deepcopy n v (h, m) = Inr (v', h', m')
       \<and> copy_post h0 ip h m h' m' \<and> copied m' v v'"
  "closed_heap h0 \<Longrightarrow> copy_inv h0 ip h m \<Longrightarrow> (\<forall>r. PRef r \<in> set vs \<longrightarrow> r < length h0) \<Longrightarrow>
   card ({..<length h0} - dom m) \<le> n \<Longrightarrow>
     \<exists>vs' h' m'. deepcopy_vals n vs (h, m) = Inr (vs', h', m')
       \<and> copy_post h0 ip h m h' m' \<and> list_all2 (copied m') vs vs'"
proof (induction n v "(h, m)" and n vs "(h, m)" arbitrary: h m ip and h m ip
    rule: deepcopy_deepcopy_vals.induct)
  case (1 a h m)
  from "1.prems"(3) have a: "a < length h0" by simp
  show ?case
  proof (cases "m a")
    case None
    from card_unmemo_pos [of a "length h0" m, OF a None] "1.prems"(4) show ?thesis by simp
  next
    case (Some b)
    with copy_post_refl [OF "1.prems"(2)] show ?thesis by simp
  qed
next
  case (2 k a h m)
  note closed = "2.prems"(1) and inv = "2.prems"(2) and card = "2.prems"(4)
  from "2.prems"(3) have a: "a < length h0" by simp
  show ?case
  proof (cases "m a")
    case (Some b)
    with copy_post_refl [OF inv] show ?thesis by simp
  next
    case None
    note ma = None
    from copy_inv_length [OF inv] a have al: "a < length h" by simp
    from copy_inv_old [OF inv a] al have hg: "heap_get h a = Some (h0 ! a)"
      by (simp add: heap_get_def)
    have inv0: "copy_inv h0 (insert a ip) (h @ [ob]) (m(a \<mapsto> length h))" for ob
      by (rule copy_inv_alloc [OF inv a ma])
    have card0: "card ({..<length h0} - dom (m(a \<mapsto> length h))) \<le> k"
      by (rule card_unmemo_step [of a "length h0" m k, OF a ma card])
    show ?thesis
    proof (cases "h0 ! a")
      case (PList vs)
      have old: "\<forall>r. PRef r \<in> set vs \<longrightarrow> r < length h0"
        using closed_heap_refs [OF closed a] by (simp add: PList refs_of_def)
      from 2(2) [OF ma hg PList closed inv0 old card0]
      obtain vs1 h1 m1 where
        r: "deepcopy_vals k vs (h @ [PList []], m(a \<mapsto> length h)) = Inr (vs1, h1, m1)"
        and post: "copy_post h0 (insert a ip) (h @ [PList []]) (m(a \<mapsto> length h)) h1 m1"
        and cp: "list_all2 (copied m1) vs vs1"
        by blast
      have ob: "copied_obj m1 (h0 ! a) (PList vs1)" using cp by (simp add: PList)
      have post': "copy_post h0 ip h m (h1[length h := PList vs1]) m1"
        by (rule copy_post_finish [OF inv ma post ob])
      then have "m1 a = Some (length h)"
        using post by (auto simp: copy_post_def map_le_def dom_def)
      then have "copied m1 (PRef a) (PRef (length h))" by simp
      moreover have "deepcopy (Suc k) (PRef a) (h, m) =
          Inr (PRef (length h), h1[length h := PList vs1], m1)"
        using ma hg PList r by simp
      ultimately show ?thesis using post' by blast
    next
      case (PDict kvs)
      have old: "\<forall>r. PRef r \<in> set (map snd kvs) \<longrightarrow> r < length h0"
        using closed_heap_refs [OF closed a] by (simp add: PDict refs_of_def)
      from 2(1) [OF ma hg PDict closed inv0 old card0]
      obtain vs1 h1 m1 where
        r: "deepcopy_vals k (map snd kvs) (h @ [PDict []], m(a \<mapsto> length h)) =
              Inr (vs1, h1, m1)"
        and post: "copy_post h0 (insert a ip) (h @ [PDict []]) (m(a \<mapsto> length h)) h1 m1"
        and cp: "list_all2 (copied m1) (map snd kvs) vs1"
        by blast
      from cp have len: "length vs1 = length kvs" by (auto dest: list_all2_lengthD)
      have ob: "copied_obj m1 (h0 ! a) (PDict (zip (map fst kvs) vs1))"
        using cp len by (simp add: PDict)
      have post': "copy_post h0 ip h m (h1[length h := PDict (zip (map fst kvs) vs1)]) m1"
        by (rule copy_post_finish [OF inv ma post ob])
      then have "m1 a = Some (length h)"
        using post by (auto simp: copy_post_def map_le_def dom_def)
      then have "copied m1 (PRef a) (PRef (length h))" by simp
      moreover have "deepcopy (Suc k) (PRef a) (h, m) =
          Inr (PRef (length h), h1[length h := PDict (zip (map fst kvs) vs1)], m1)"
        using ma hg PDict r by simp
      ultimately show ?thesis using post' by blast
    qed
  qed
next
  case (4 n h m)
  with copy_post_refl [OF "4.prems"(2)] show ?case by simp
next
  case (5 n v vs h m)
  note closed = "5.prems"(1) and inv = "5.prems"(2) and card = "5.prems"(4)
  from "5.prems"(3) have oldv: "\<forall>r. v = PRef r \<longrightarrow> r < length h0"
    and oldvs: "\<forall>r. PRef r \<in> set vs \<longrightarrow> r < length h0" by simp_all
  from 5(1) [OF closed inv oldv card] obtain v1 h1 m1 where
    a: "deepcopy n v (h, m) = Inr (v1, h1, m1)"
    and p1: "copy_post h0 ip h m h1 m1" and c1: "copied m1 v v1"
    by blast
  from p1 have inv1: "copy_inv h0 ip h1 m1" and le1: "m \<subseteq>\<^sub>m m1"
    by (simp_all add: copy_post_def)
  from card_unmemo_mono [OF le1, of "length h0"] card
  have card1: "card ({..<length h0} - dom m1) \<le> n" by simp
  from 5(2) [OF a refl refl closed inv1 oldvs card1] obtain vs2 h2 m2 where
    b: "deepcopy_vals n vs (h1, m1) = Inr (vs2, h2, m2)"
    and p2: "copy_post h0 ip h1 m1 h2 m2" and c2: "list_all2 (copied m2) vs vs2"
    by blast
  from p2 have le2: "m1 \<subseteq>\<^sub>m m2" by (simp add: copy_post_def)
  have "deepcopy_vals n (v # vs) (h, m) = Inr (v1 # vs2, h2, m2)" using a b by simp
  moreover have "copy_post h0 ip h m h2 m2" by (rule copy_post_trans [OF p1 p2])
  moreover have "list_all2 (copied m2) (v # vs) (v1 # vs2)"
    using copied_mono [OF le2 c1] c2 by simp
  ultimately show ?case by blast
qed (simp_all add: copy_post_refl)

lemma copied_lookup:
  assumes "map fst kvs' = map fst kvs"
    and "list_all2 R (map snd kvs) (map snd kvs')"
    and "map_of kvs k = Some v"
  shows "\<exists>v'. map_of kvs' k = Some v' \<and> R v v'"
  using assms
proof (induction kvs arbitrary: kvs')
  case Nil
  then show ?case by simp
next
  case (Cons p kvs)
  from Cons.prems(1) obtain p' kvs1 where k': "kvs' = p' # kvs1"
    and f: "fst p' = fst p" "map fst kvs1 = map fst kvs"
    by (cases kvs') auto
  from Cons.prems(2) have r: "R (snd p) (snd p')" "list_all2 R (map snd kvs) (map snd kvs1)"
    by (simp_all add: k')
  show ?case
  proof (cases "fst p = k")
    case True
    with Cons.prems(3) have "v = snd p" by (cases p) simp
    with True f r show ?thesis by (cases p') (simp add: k')
  next
    case False
    with Cons.prems(3) have "map_of kvs k = Some v" by (cases p) simp
    from Cons.IH [OF f(2) r(2) this] False f show ?thesis by (cases p') (simp add: k')
  qed
qed

lemma copied_PRef:
  assumes "copied m (PRef a) v'"
  shows "\<exists>b. m a = Some b \<and> v' = PRef b"
  using assms by (auto split: option.splits)

lemma copied_obj_PDict:
  assumes "copied_obj m (PDict kvs) ob'"
  shows "\<exists>kvs'. ob' = PDict kvs' \<and> map fst kvs' = map fst kvs
             \<and> list_all2 (copied m) (map snd kvs) (map snd kvs')"
  using assms by (cases ob') simp_all

lemma copied_obj_PList:
  assumes "copied_obj m (PList (x # xs)) ob'"
  shows "\<exists>y ys. ob' = PList (y # ys) \<and> copied m x y"
  using assms by (cases ob') (auto simp: list_all2_Cons1)

lemma is_dict_ref:
  assumes "is_dict h v"
  shows "\<exists>a kvs. v = PRef a \<and> a < length h \<and> h ! a = PDict kvs"
  using assms
  by (cases v) (auto simp: is_dict_def heap_get_def split: option.splits pyobj.splits if_splits)

lemma list_first_ref:
  assumes "list_first h v = Some x"
  shows "\<exists>l xs. v = PRef l \<and> l < length h \<and> h ! l = PList (x # xs)"
  using assms
  by (cases v)
     (auto simp: list_first_def heap_get_def
        split: option.splits pyobj.splits list.splits if_splits)

lemma to_ImportedDataInfo_returns:
  assumes closed: "closed_heap h" and depth: "length h \<le> depth"
    and idi: "is_dict h (imported_data_info self)"
    and defs: "dict_get h (imported_data_info self) ''table_defs'' = Some defs"
    and first: "list_first h defs = Some first"
    and fd: "is_dict h first"
  shows "\<exists>d. fst (to_ImportedDataInfo depth self h) = Inr (PRef d) \<and> length h \<le> d"
proof -
  from is_dict_ref [OF idi] obtain a kvs where
    v: "imported_data_info self = PRef a" and a: "a < length h" and ha: "h ! a = PDict kvs"
    by blast
  from defs have td: "map_of kvs ''table_defs'' = Some defs"
    using a ha by (simp add: dict_get_def heap_get_def v)
  from list_first_ref [OF first] obtain l xs where
    dl: "defs = PRef l" and l: "l < length h" and hl: "h ! l = PList (first # xs)"
    by blast
  from is_dict_ref [OF fd] obtain t tkvs where
    ft: "first = PRef t" and t: "t < length h" and ht: "h ! t = PDict tkvs"
    by blast
  have inv0: "copy_inv h {} h Map.empty" by (rule copy_invI) simp_all
  have card0: "card ({..<length h} - dom (Map.empty :: memo)) \<le> depth" using depth by simp
  have old: "\<forall>r. imported_data_info self = PRef r \<longrightarrow> r < length h" using v a by simp
  from deepcopy_total(1) [OF closed inv0 old card0] obtain v' h1 m1 where
    dc: "deepcopy depth (imported_data_info self) (h, Map.empty) = Inr (v', h1, m1)"
    and post: "copy_post h {} h Map.empty h1 m1"
    and cp: "copied m1 (imported_data_info self) v'"
    by blast
  from post have inv: "copy_inv h {} h1 m1" by (simp add: copy_post_def)
  from copied_PRef [OF cp [unfolded v]] obtain d where md: "m1 a = Some d" and v': "v' = PRef d"
    by blast
  from copy_inv_entry [OF inv md] have d: "length h \<le> d" "d < length h1" by simp_all
  from copy_inv_done [OF inv md] have "copied_obj m1 (PDict kvs) (h1 ! d)" by (simp add: ha)
  from copied_obj_PDict [OF this] obtain kvs' where
    hd: "h1 ! d = PDict kvs'" and ks: "map fst kvs' = map fst kvs"
    and vs: "list_all2 (copied m1) (map snd kvs) (map snd kvs')"
    by blast
  from copied_lookup [OF ks vs td] obtain dv where
    td': "map_of kvs' ''table_defs'' = Some dv" and "copied m1 defs dv" by blast
  from copied_PRef [OF this(2) [unfolded dl]] obtain l' where
    ml: "m1 l = Some l'" and dv: "dv = PRef l'" by blast
  from copy_inv_entry [OF inv ml] have l': "l' < length h1" by simp
  from copy_inv_done [OF inv ml] have "copied_obj m1 (PList (first # xs)) (h1 ! l')"
    by (simp add: hl)
  from copied_obj_PList [OF this] obtain y ys where
    hl': "h1 ! l' = PList (y # ys)" and "copied m1 first y" by blast
  from copied_PRef [OF this(2) [unfolded ft]] obtain t' where
    mt: "m1 t = Some t'" and y: "y = PRef t'" by blast
  from copy_inv_entry [OF inv mt] have t': "t' < length h1" by simp
  from copy_inv_done [OF inv mt] have "copied_obj m1 (PDict tkvs) (h1 ! t')"
    by (simp add: ht)
  from copied_obj_PDict [OF this] obtain tkvs' where ht': "h1 ! t' = PDict tkvs'" by blast
  define kvs2 where "kvs2 = AList.update ''destination_table_id'' (table_name self)
                              (AList.delete ''destination_table_id_template'' kvs')"
  define h2 where "h2 = h1[d := PDict kvs2]"
  have m2: "map_of kvs2 ''table_defs'' = Some (PRef l')"
    using td' dv by (simp add: kvs2_def map_of_table_defs)
  have ld: "l' \<noteq> d" using hl' hd by auto
  then have f2: "first_table_def (PRef l') h2 = Inr (PRef t')"
    using l' hl' y by (simp add: first_table_def_def heap_get_def h2_def)
  have "\<exists>kk. h2 ! t' = PDict kk"
    using ht' d by (cases "t' = d") (simp_all add: h2_def)
  then obtain kk where "h2 ! t' = PDict kk" by blast
  then have s2: "fst (set_source_uris (PRef d) (PRef t') (uris self) h2) = Inr (PRef d)"
    using t' by (simp add: set_source_uris_def heap_get_def h2_def)
  have "to_ImportedDataInfo depth self h =
          (case map_of kvs2 ''table_defs'' of
             None \<Rightarrow> (Inl KeyError, h2)
           | Some defs \<Rightarrow>
               (case first_table_def defs h2 of
                  Inl e \<Rightarrow> (Inl e, h2)
                | Inr first_def \<Rightarrow>
                    set_source_uris (PRef d) first_def (uris self) h2))"
    unfolding kvs2_def h2_def using dc v' d hd
    by (simp add: to_ImportedDataInfo_def heap_get_def Let_def)
  with m2 f2 s2 d show ?thesis by simp
qed

section \<open>What the deep copy returns\<close>

lemma deepcopy_mono:
  "deepcopy n v (h, m) = Inr r \<Longrightarrow> n \<le> n' \<Longrightarrow> deepcopy n' v (h, m) = Inr r"
  "deepcopy_vals n vs (h, m) = Inr rs \<Longrightarrow> n \<le> n' \<Longrightarrow> deepcopy_vals n' vs (h, m) = Inr rs"
proof (induction n v "(h, m)" and n vs "(h, m)" arbitrary: h m r n' and h m rs n'
    rule: deepcopy_deepcopy_vals.induct)
  case (1 a h m)
  then obtain b where b: "m a = Some b" "r = (PRef b, h, m)"
    by (auto split: option.splits)
  then show ?case by (cases n') simp_all
next
  case (2 k a h m)
  from 2(4) obtain k' where n': "n' = Suc k'" and k: "k \<le> k'" by (cases n') auto
  show ?case
  proof (cases "m a")
    case (Some b)
    with 2(3) show ?thesis by (simp add: n')
  next
    case None
    note ma = None
    show ?thesis
    proof (cases "heap_get h a")
      case None
      with ma 2(3) show ?thesis by simp
    next
      case (Some ob)
      show ?thesis
      proof (cases ob)
        case (PList vs)
        with ma Some 2(3) obtain rs where
          r: "deepcopy_vals k vs (h @ [PList []], m(a \<mapsto> length h)) = Inr rs"
          by (auto split: sum.splits)
        from 2(2) [OF ma Some PList r k]
        have "deepcopy_vals k' vs (h @ [PList []], m(a \<mapsto> length h)) = Inr rs" .
        with r 2(3) ma Some PList show ?thesis by (simp add: n')
      next
        case (PDict kvs)
        with ma Some 2(3) obtain rs where
          r: "deepcopy_vals k (map snd kvs) (h @ [PDict []], m(a \<mapsto> length h)) = Inr rs"
          by (auto split: sum.splits)
        from 2(1) [OF ma Some PDict r k]
        have "deepcopy_vals k' (map snd kvs) (h @ [PDict []], m(a \<mapsto> length h)) = Inr rs" .
        with r 2(3) ma Some PDict show ?thesis by (simp add: n')
      qed
    qed
  qed
next
  case (5 n v vs h m)
  from 5(3) obtain v1 h1 m1 rs1 where
    a: "deepcopy n v (h, m) = Inr (v1, h1, m1)"
    and b: "deepcopy_vals n vs (h1, m1) = Inr rs1"
    by (auto split: sum.splits)
  from 5(1) [OF a 5(4)] have a': "deepcopy n' v (h, m) = Inr (v1, h1, m1)" .
  from 5(2) [OF a refl refl b 5(4)] have b': "deepcopy_vals n' vs (h1, m1) = Inr rs1" .
  from 5(3) a b a' b' show ?case by simp
qed simp_all

lemma deepcopy_copies:
  assumes closed: "closed_heap h0" and inv: "copy_inv h0 ip h m"
    and old: "\<forall>r. v = PRef r \<longrightarrow> r < length h0"
    and dc: "deepcopy n v (h, m) = Inr (v', h', m')"
  shows "copy_post h0 ip h m h' m' \<and> copied m' v v'"
proof -
  define N where "N = max n (card ({..<length h0} - dom m))"
  have "card ({..<length h0} - dom m) \<le> N" by (simp add: N_def)
  from deepcopy_total(1) [OF closed inv old this] obtain v2 h2 m2 where
    t: "deepcopy N v (h, m) = Inr (v2, h2, m2)"
    and p: "copy_post h0 ip h m h2 m2" "copied m2 v v2"
    by blast
  have "deepcopy N v (h, m) = Inr (v', h', m')"
    by (rule deepcopy_mono(1) [OF dc]) (simp add: N_def)
  with t have "v2 = v'" "h2 = h'" "m2 = m'" by simp_all
  with p show ?thesis by simp
qed

lemma deepcopy_ref_source:
  assumes "deepcopy n v (h, Map.empty) = Inr (PRef d, h1, m)"
  shows "\<exists>a. v = PRef a \<and> a < length h"
proof (cases v)
  case (PRef a)
  have "a < length h"
  proof (cases n)
    case 0
    with assms PRef show ?thesis by simp
  next
    case (Suc k)
    with assms PRef show ?thesis
      by (cases "heap_get h a") (simp_all add: heap_get_def split: if_splits)
  qed
  with PRef show ?thesis by simp
qed (use assms in simp_all)

lemma to_ImportedDataInfo_copy:
  assumes closed: "closed_heap h" and r: "fst (to_ImportedDataInfo depth self h) = Inr r"
  shows "\<exists>m d t defs.
      r = PRef d \<and> copied m (imported_data_info self) r
    \<and> dict_get (snd (to_ImportedDataInfo depth self h)) r ''table_defs'' = Some defs
    \<and> list_first (snd (to_ImportedDataInfo depth self h)) defs = Some (PRef t)
    \<and> (\<forall>a b. m a = Some b \<longrightarrow>
          a < length h \<and> length h \<le> b \<and> b < length (snd (to_ImportedDataInfo depth self h))
        \<and> (\<exists>ob. copied_obj m (h ! a) ob
              \<and> snd (to_ImportedDataInfo depth self h) ! b = edited self d t b ob))"
proof -
  define kvs2 where "kvs2 = (\<lambda>kvs. AList.update ''destination_table_id'' (table_name self)
                       (AList.delete ''destination_table_id_template'' kvs))"
  from to_ImportedDataInfo_Inr [OF r] obtain d h1 m kvs l xs t tkvs where
    dc: "deepcopy depth (imported_data_info self) (h, Map.empty) = Inr (PRef d, h1, m)"
    and rd: "r = PRef d" and d: "d < length h1" and hd: "h1 ! d = PDict kvs"
    and td: "map_of kvs ''table_defs'' = Some (PRef l)"
    and l: "l < length h1" "l \<noteq> d" "h1 ! l = PList (PRef t # xs)"
    and t: "t < length h1" "t \<noteq> l"
    and ht: "h1[d := PDict (kvs2 kvs)] ! t = PDict tkvs"
    and h': "snd (to_ImportedDataInfo depth self h) =
        h1[d := PDict (kvs2 kvs), t := PDict (AList.update ''source_uris'' (uris self) tkvs)]"
    unfolding kvs2_def by blast
  let ?h' = "h1[d := PDict (kvs2 kvs), t := PDict (AList.update ''source_uris'' (uris self) tkvs)]"
  from deepcopy_ref_source [OF dc] have old: "\<forall>r. imported_data_info self = PRef r \<longrightarrow> r < length h"
    by auto
  have inv0: "copy_inv h {} h Map.empty" by (rule copy_invI) simp_all
  from deepcopy_copies [OF closed inv0 old dc]
  have post: "copy_post h {} h Map.empty h1 m" and cp: "copied m (imported_data_info self) (PRef d)"
    by simp_all
  from post have inv: "copy_inv h {} h1 m" by (simp add: copy_post_def)
  have root: "edit_root (table_name self) (h1 ! d) = PDict (kvs2 kvs)"
    by (simp add: edit_root_def hd kvs2_def)
  have cell: "?h' ! b = edited self d t b (h1 ! b)" if b: "b < length h1" for b
  proof (cases "b = t")
    case True
    show ?thesis
    proof (cases "t = d")
      case True
      with ht d have "tkvs = kvs2 kvs" by simp
      with True \<open>b = t\<close> d root show ?thesis
        by (simp add: edited_def edit_def_def)
    next
      case False
      with ht t have "h1 ! t = PDict tkvs" by simp
      with False \<open>b = t\<close> t show ?thesis
        by (simp add: edited_def edit_def_def)
    qed
  next
    case False
    then show ?thesis using b d root by (cases "b = d") (simp_all add: edited_def)
  qed
  have m2: "map_of (kvs2 kvs) ''table_defs'' = Some (PRef l)"
    using td by (simp add: kvs2_def map_of_table_defs)
  have dg: "dict_get ?h' (PRef d) ''table_defs'' = Some (PRef l)"
  proof (cases "t = d")
    case True
    with ht d have "tkvs = kvs2 kvs" by simp
    with True d m2 show ?thesis
      by (simp add: dict_get_def heap_get_def update_conv')
  next
    case False
    with d m2 show ?thesis by (simp add: dict_get_def heap_get_def)
  qed
  have lf: "list_first ?h' (PRef l) = Some (PRef t)"
    using l t by (simp add: list_first_def heap_get_def)
  have ent: "a < length h \<and> length h \<le> b \<and> b < length ?h'
        \<and> (\<exists>ob. copied_obj m (h ! a) ob \<and> ?h' ! b = edited self d t b ob)"
    if e: "m a = Some b" for a b
  proof -
    from copy_inv_entry [OF inv e] have 1: "a < length h" "length h \<le> b" "b < length h1"
      by simp_all
    from copy_inv_done [OF inv e] have 2: "copied_obj m (h ! a) (h1 ! b)" by simp
    from cell [OF 1(3)] 1 2 show ?thesis by auto
  qed
  show ?thesis
    unfolding h' rd using cp dg lf ent
    by (intro exI [of _ m] exI [of _ d] exI [of _ t] exI [of _ "PRef l"]) blast
qed

lemma example_to_ImportedDataInfo:
  "to_ImportedDataInfo 4 example_ctx example_heap =
     (Inr (PRef 4),
      example_heap @
      [PDict [(''destination_table_description'', PStr ''1582-10-15 - 2199-12-31 inclusive''),
              (''table_defs'', PRef 5),
              (''destination_table_id'', PStr ''date_greg$20180101'')],
       PList [PRef 6],
       PDict [(''format'', PStr ''JSON''), (''max_bad_records'', PInt 0),
              (''encoding'', PStr ''UTF8''), (''source_uris'', PRef 3)]])"
  by (simp add: to_ImportedDataInfo_def example_ctx_def example_heap_def heap_get_def
        first_table_def_def set_source_uris_def eval_nat_numeral)

text \<open>
  C9. \<open>to_ImportedDataInfo\<close> changes no object that existed before the call: the store it
  leaves behind begins with the old store, so the context's own \<open>imported_data_info\<close> and
  everything reachable from it are as before. Whenever it returns a value, that value is a
  dict without the key \<open>destination_table_id_template\<close>, whose \<open>destination_table_id\<close> is
  the context's table name, and the first element of whose \<open>table_defs\<close> is a dict whose
  \<open>source_uris\<close> is the context's \<open>uris\<close>. In a closed store the returned value is the
  deep copy of \<open>imported_data_info\<close> with these two edits and nothing else: there is a memo
  that maps \<open>imported_data_info\<close> to the result and every object it maps to a new object
  with the same keys and length, whose elements are the same atomic values and the memo's
  images of the addresses, changed only by the edit of the result itself and of its first
  table definition. The call does return a value when the store is closed, the recursion
  depth is at least the number of objects, and \<open>imported_data_info\<close> is a dict whose
  \<open>table_defs\<close> is a list that begins with a dict.
\<close>

theorem to_ImportedDataInfo_frame_and_result:
  "take (length h) (snd (to_ImportedDataInfo depth self h)) = h
   \<and> (\<forall>r. fst (to_ImportedDataInfo depth self h) = Inr r \<longrightarrow>
        is_dict (snd (to_ImportedDataInfo depth self h)) r
      \<and> dict_get (snd (to_ImportedDataInfo depth self h)) r
            ''destination_table_id_template'' = None
      \<and> dict_get (snd (to_ImportedDataInfo depth self h)) r ''destination_table_id'' =
            Some (table_name self)
      \<and> (\<exists>defs first.
            dict_get (snd (to_ImportedDataInfo depth self h)) r ''table_defs'' = Some defs
          \<and> list_first (snd (to_ImportedDataInfo depth self h)) defs = Some first
          \<and> dict_get (snd (to_ImportedDataInfo depth self h)) first ''source_uris'' =
              Some (uris self)))
   \<and> (closed_heap h \<longrightarrow>
        (\<forall>r. fst (to_ImportedDataInfo depth self h) = Inr r \<longrightarrow>
           (\<exists>m d t defs.
               r = PRef d \<and> copied m (imported_data_info self) r
             \<and> dict_get (snd (to_ImportedDataInfo depth self h)) r ''table_defs'' = Some defs
             \<and> list_first (snd (to_ImportedDataInfo depth self h)) defs = Some (PRef t)
             \<and> (\<forall>a b. m a = Some b \<longrightarrow>
                   a < length h \<and> length h \<le> b
                 \<and> b < length (snd (to_ImportedDataInfo depth self h))
                 \<and> (\<exists>ob. copied_obj m (h ! a) ob
                       \<and> snd (to_ImportedDataInfo depth self h) ! b =
                           edited self d t b ob)))))
   \<and> (closed_heap h \<and> length h \<le> depth \<and> is_dict h (imported_data_info self)
        \<and> (\<exists>defs first.
              dict_get h (imported_data_info self) ''table_defs'' = Some defs
            \<and> list_first h defs = Some first \<and> is_dict h first) \<longrightarrow>
        (\<exists>d. fst (to_ImportedDataInfo depth self h) = Inr (PRef d) \<and> length h \<le> d))"
proof (intro conjI)
  show "take (length h) (snd (to_ImportedDataInfo depth self h)) = h"
    by (rule to_ImportedDataInfo_frame)
next
  show "\<forall>r. fst (to_ImportedDataInfo depth self h) = Inr r \<longrightarrow>
        is_dict (snd (to_ImportedDataInfo depth self h)) r
      \<and> dict_get (snd (to_ImportedDataInfo depth self h)) r
            ''destination_table_id_template'' = None
      \<and> dict_get (snd (to_ImportedDataInfo depth self h)) r ''destination_table_id'' =
            Some (table_name self)
      \<and> (\<exists>defs first.
            dict_get (snd (to_ImportedDataInfo depth self h)) r ''table_defs'' = Some defs
          \<and> list_first (snd (to_ImportedDataInfo depth self h)) defs = Some first
          \<and> dict_get (snd (to_ImportedDataInfo depth self h)) first ''source_uris'' =
              Some (uris self))"
    using to_ImportedDataInfo_result [of depth self h] by blast
next
  show "closed_heap h \<longrightarrow>
        (\<forall>r. fst (to_ImportedDataInfo depth self h) = Inr r \<longrightarrow>
           (\<exists>m d t defs.
               r = PRef d \<and> copied m (imported_data_info self) r
             \<and> dict_get (snd (to_ImportedDataInfo depth self h)) r ''table_defs'' = Some defs
             \<and> list_first (snd (to_ImportedDataInfo depth self h)) defs = Some (PRef t)
             \<and> (\<forall>a b. m a = Some b \<longrightarrow>
                   a < length h \<and> length h \<le> b
                 \<and> b < length (snd (to_ImportedDataInfo depth self h))
                 \<and> (\<exists>ob. copied_obj m (h ! a) ob
                       \<and> snd (to_ImportedDataInfo depth self h) ! b =
                           edited self d t b ob))))"
    using to_ImportedDataInfo_copy [of h depth self] by blast
next
  show "closed_heap h \<and> length h \<le> depth \<and> is_dict h (imported_data_info self)
        \<and> (\<exists>defs first.
              dict_get h (imported_data_info self) ''table_defs'' = Some defs
            \<and> list_first h defs = Some first \<and> is_dict h first) \<longrightarrow>
        (\<exists>d. fst (to_ImportedDataInfo depth self h) = Inr (PRef d) \<and> length h \<le> d)"
  proof
    assume "closed_heap h \<and> length h \<le> depth \<and> is_dict h (imported_data_info self)
        \<and> (\<exists>defs first.
              dict_get h (imported_data_info self) ''table_defs'' = Some defs
            \<and> list_first h defs = Some first \<and> is_dict h first)"
    then obtain defs first where "closed_heap h" "length h \<le> depth"
      "is_dict h (imported_data_info self)"
      "dict_get h (imported_data_info self) ''table_defs'' = Some defs"
      "list_first h defs = Some first" "is_dict h first"
      by blast
    then show "\<exists>d. fst (to_ImportedDataInfo depth self h) = Inr (PRef d) \<and> length h \<le> d"
      by (rule to_ImportedDataInfo_returns)
  qed
qed

theorem to_ImportedDataInfo_frame_and_result_witness:
  "closed_heap example_heap \<and> length example_heap \<le> 4
   \<and> is_dict example_heap (imported_data_info example_ctx)
   \<and> dict_get example_heap (imported_data_info example_ctx) ''table_defs'' = Some (PRef 1)
   \<and> list_first example_heap (PRef 1) = Some (PRef 2)
   \<and> is_dict example_heap (PRef 2)
   \<and> to_ImportedDataInfo 4 example_ctx example_heap =
       (Inr (PRef 4),
        example_heap @
        [PDict [(''destination_table_description'',
                 PStr ''1582-10-15 - 2199-12-31 inclusive''),
                (''table_defs'', PRef 5),
                (''destination_table_id'', PStr ''date_greg$20180101'')],
         PList [PRef 6],
         PDict [(''format'', PStr ''JSON''), (''max_bad_records'', PInt 0),
                (''encoding'', PStr ''UTF8''), (''source_uris'', PRef 3)]])
   \<and> take (length example_heap) (snd (to_ImportedDataInfo 4 example_ctx example_heap)) =
       example_heap
   \<and> dict_get (snd (to_ImportedDataInfo 4 example_ctx example_heap)) (PRef 4)
       ''destination_table_id_template'' = None
   \<and> dict_get (snd (to_ImportedDataInfo 4 example_ctx example_heap)) (PRef 4)
       ''destination_table_id'' = Some (PStr ''date_greg$20180101'')
   \<and> dict_get (snd (to_ImportedDataInfo 4 example_ctx example_heap)) (PRef 4)
       ''table_defs'' = Some (PRef 5)
   \<and> list_first (snd (to_ImportedDataInfo 4 example_ctx example_heap)) (PRef 5) =
       Some (PRef 6)
   \<and> dict_get (snd (to_ImportedDataInfo 4 example_ctx example_heap)) (PRef 6)
       ''source_uris'' = Some (PRef 3)
   \<and> dict_get example_heap (PRef 0) ''destination_table_id_template'' =
       Some (PStr ''date_greg${run_yyyymmdd}'')"
  using to_ImportedDataInfo_frame_and_result [of example_heap 4 example_ctx]
  by (simp add: example_to_ImportedDataInfo)
     (simp add: example_heap_def example_ctx_def dict_get_def list_first_def heap_get_def
        is_dict_def closed_heap_def obj_values_def)

end
